theory Spec2Isabelle
  imports Main "HOL-Library.Word" "HOL-Library.Multiset"
begin

section \<open>Common types of the DomaGuardian contracts\<close>

text \<open>
  The contracts are Solidity 0.8.26. An \<open>address\<close> is a 160-bit word and \<open>uint256\<close> a
  256-bit word. Arithmetic on \<open>uint256\<close> is checked: an overflow or underflow reverts
  the call with \<open>Panic(0x11)\<close>, an array access out of range with \<open>Panic(0x32)\<close>.
  A reverted call returns \<open>Inl\<close> of the error and no state: the caller of the model
  keeps the state it had, as the EVM rolls every effect of a reverted call back.
  Two strings are compared in the source by the equality of their \<open>keccak256\<close>
  hashes; the model compares the strings themselves.
\<close>

type_synonym address = "160 word"
type_synonym uint256 = "256 word"

datatype error =
    UnauthorizedContract
  | InsufficientPayment
  | InvalidAmount
  | TransferFailed
  | ContractNotAuthorized
  | InvalidRecipient
  | InvalidMessage
  | InvalidContractAddress
  | InvalidTokenAddress
  | MonitoringNotActive
  | DomainNotExists
  | DomainAlreadyTokenized
  | NotDomainOwner
  | InvalidDomainName
  | RightNotExists
  | RightExpired
  | OwnableUnauthorizedAccount address
  | OwnableInvalidOwner address
  | ReentrancyGuardReentrantCall
  | InsufficientBalance uint256 uint256
  | FailedCall
  | Panic nat
  | Error string

definition checked_add :: "uint256 \<Rightarrow> uint256 \<Rightarrow> error + uint256" where
  "checked_add a b = (if unat a + unat b < 2 ^ 256 then Inr (a + b) else Inl (Panic 17))"

definition checked_sub :: "uint256 \<Rightarrow> uint256 \<Rightarrow> error + uint256" where
  "checked_sub a b = (if b \<le> a then Inr (a - b) else Inl (Panic 17))"

section \<open>DToken: the payment ledger\<close>

datatype dt_event =
    ContractAuthorized address bool
  | FeatureUsed address address uint256
  | DT_PaymentReceived address uint256
  | PaymentWithdrawn address uint256
  | DT_OwnershipTransferred address address

text \<open>
  The state of the contract: the owner of \<open>Ownable\<close>, the flag of \<open>ReentrancyGuard\<close>
  (true while a \<open>nonReentrant\<close> function runs), the three mappings, the native
  currency the contract holds (\<open>address(this).balance\<close>), the events emitted so far
  and the value transfers the contract has made (recipient and amount), oldest first.
\<close>

record DToken =
  dt_owner :: address
  dt_entered :: bool
  authorizedContracts :: "address \<Rightarrow> bool"
  userPayments :: "address \<Rightarrow> uint256"
  userFeatureUsage :: "address \<Rightarrow> uint256"
  dt_balance :: uint256
  dt_log :: "dt_event list"
  dt_sent :: "(address \<times> uint256) list"

definition FEATURE_COST :: uint256 where
  "FEATURE_COST = 100000000000000"

text \<open>\<open>constructor() Ownable(msg.sender) {}\<close>\<close>

definition dt_constructor :: "address \<Rightarrow> DToken" where
  "dt_constructor deployer =
     \<lparr>dt_owner = deployer, dt_entered = False,
      authorizedContracts = (\<lambda>_. False),
      userPayments = (\<lambda>_. 0),
      userFeatureUsage = (\<lambda>_. 0),
      dt_balance = 0,
      dt_log = [DT_OwnershipTransferred 0 deployer],
      dt_sent = []\<rparr>"

text \<open>
  The value sent with a call to a payable function is added to the balance of the
  contract before its body runs. The balances of a chain sum to its supply, which is
  far below \<open>2 ^ 256\<close>, so this addition does not wrap on a chain.
\<close>

definition dt_credit_value :: "uint256 \<Rightarrow> DToken \<Rightarrow> DToken" where
  "dt_credit_value v s = s\<lparr>dt_balance := dt_balance s + v\<rparr>"

definition authorizeContract :: "DToken \<Rightarrow> address \<Rightarrow> address \<Rightarrow> bool \<Rightarrow> error + DToken" where
  "authorizeContract s sender contractAddress authorized =
     (if sender \<noteq> dt_owner s then Inl (OwnableUnauthorizedAccount sender)
      else Inr (s\<lparr>authorizedContracts := (authorizedContracts s)(contractAddress := authorized),
                  dt_log := dt_log s @ [ContractAuthorized contractAddress authorized]\<rparr>))"

text \<open>
  A \<open>nonReentrant\<close> function sets the flag on entry and clears it on exit; no call
  from outside runs in between here, so the state it returns has the flag clear,
  as the state it started from.
\<close>

definition payForFeature :: "DToken \<Rightarrow> address \<Rightarrow> uint256 \<Rightarrow> error + DToken" where
  "payForFeature s sender val =
     (if dt_entered s then Inl ReentrancyGuardReentrantCall
      else if val \<noteq> FEATURE_COST then Inl InsufficientPayment
      else case checked_add (userPayments s sender) val of
             Inl e \<Rightarrow> Inl e
           | Inr p \<Rightarrow>
               Inr (dt_credit_value val s
                      \<lparr>userPayments := (userPayments s)(sender := p),
                       dt_log := dt_log s @ [DT_PaymentReceived sender val]\<rparr>))"

definition useFeature :: "DToken \<Rightarrow> address \<Rightarrow> address \<Rightarrow> error + DToken" where
  "useFeature s sender user =
     (if \<not> authorizedContracts s sender then Inl UnauthorizedContract
      else if dt_entered s then Inl ReentrancyGuardReentrantCall
      else if userPayments s user < FEATURE_COST then Inl InsufficientPayment
      else case checked_sub (userPayments s user) FEATURE_COST of
             Inl e \<Rightarrow> Inl e
           | Inr p \<Rightarrow>
              (case checked_add (userFeatureUsage s user) 1 of
                 Inl e \<Rightarrow> Inl e
               | Inr u \<Rightarrow>
                   Inr (s\<lparr>userPayments := (userPayments s)(user := p),
                          userFeatureUsage := (userFeatureUsage s)(user := u),
                          dt_log := dt_log s @ [FeatureUsed user sender FEATURE_COST]\<rparr>)))"

definition hasFeaturePayment :: "DToken \<Rightarrow> address \<Rightarrow> bool" where
  "hasFeaturePayment s user = (userPayments s user \<ge> FEATURE_COST)"

definition getUserPaymentBalance :: "DToken \<Rightarrow> address \<Rightarrow> uint256" where
  "getUserPaymentBalance s user = userPayments s user"

definition getContractBalance :: "DToken \<Rightarrow> uint256" where
  "getContractBalance s = dt_balance s"

text \<open>
  \<open>Address.sendValue\<close> is OpenZeppelin's: it reverts with \<open>InsufficientBalance\<close> when
  the contract holds less than the amount, makes the call with the value, and
  reverts with \<open>FailedCall\<close> when the recipient rejects it. Whether the recipient
  accepts is decided by the recipient's code, which is outside the repository: it
  is the parameter \<open>accepts\<close>, and nothing else that code may do during the call
  is modelled.
\<close>

definition sendValue :: "DToken \<Rightarrow> address \<Rightarrow> uint256 \<Rightarrow> bool \<Rightarrow> error + DToken" where
  "sendValue s recipient amount accepts =
     (if dt_balance s < amount then Inl (InsufficientBalance (dt_balance s) amount)
      else if \<not> accepts then Inl FailedCall
      else Inr (s\<lparr>dt_balance := dt_balance s - amount,
                  dt_sent := dt_sent s @ [(recipient, amount)]\<rparr>))"

definition withdrawETH :: "DToken \<Rightarrow> address \<Rightarrow> uint256 \<Rightarrow> bool \<Rightarrow> error + DToken" where
  "withdrawETH s sender amount0 accepts =
     (if sender \<noteq> dt_owner s then Inl (OwnableUnauthorizedAccount sender)
      else if dt_entered s then Inl ReentrancyGuardReentrantCall
      else
        let contractBalance = dt_balance s;
            amount = (if amount0 = 0 then contractBalance else amount0)
        in if amount > contractBalance then Inl InvalidAmount
           else if amount = 0 then Inl InvalidAmount
           else case sendValue s (dt_owner s) amount accepts of
                  Inl e \<Rightarrow> Inl e
                | Inr s' \<Rightarrow>
                    Inr (s'\<lparr>dt_log := dt_log s' @ [PaymentWithdrawn (dt_owner s') amount]\<rparr>))"

text \<open>\<open>receive()\<close> runs on a call with empty calldata.\<close>

definition receive :: "DToken \<Rightarrow> address \<Rightarrow> uint256 \<Rightarrow> error + DToken" where
  "receive s sender val =
     (case checked_add (userPayments s sender) val of
        Inl e \<Rightarrow> Inl e
      | Inr p \<Rightarrow>
          Inr (dt_credit_value val s
                 \<lparr>userPayments := (userPayments s)(sender := p),
                  dt_log := dt_log s @ [DT_PaymentReceived sender val]\<rparr>))"

text \<open>\<open>fallback()\<close> runs on a call whose calldata matches no function.\<close>

definition fallback :: "DToken \<Rightarrow> address \<Rightarrow> uint256 \<Rightarrow> error + DToken" where
  "fallback s sender val =
     (case checked_add (userPayments s sender) val of
        Inl e \<Rightarrow> Inl e
      | Inr p \<Rightarrow>
          Inr (dt_credit_value val s
                 \<lparr>userPayments := (userPayments s)(sender := p),
                  dt_log := dt_log s @ [DT_PaymentReceived sender val]\<rparr>))"

text \<open>
  The two functions DToken inherits from OpenZeppelin's \<open>Ownable\<close>, which are entry
  points of the deployed contract as well.
\<close>

definition dt_transferOwnership :: "DToken \<Rightarrow> address \<Rightarrow> address \<Rightarrow> error + DToken" where
  "dt_transferOwnership s sender newOwner =
     (if sender \<noteq> dt_owner s then Inl (OwnableUnauthorizedAccount sender)
      else if newOwner = 0 then Inl (OwnableInvalidOwner 0)
      else Inr (s\<lparr>dt_owner := newOwner,
                  dt_log := dt_log s @ [DT_OwnershipTransferred (dt_owner s) newOwner]\<rparr>))"

definition dt_renounceOwnership :: "DToken \<Rightarrow> address \<Rightarrow> error + DToken" where
  "dt_renounceOwnership s sender =
     (if sender \<noteq> dt_owner s then Inl (OwnableUnauthorizedAccount sender)
      else Inr (s\<lparr>dt_owner := 0,
                  dt_log := dt_log s @ [DT_OwnershipTransferred (dt_owner s) 0]\<rparr>))"

subsection \<open>Transactions on the ledger\<close>

text \<open>
  Every state-changing entry point of the deployed contract, with its arguments; a
  payable one carries the value sent, and \<open>WithdrawETH\<close> whether the owner's account
  accepts the transfer.
\<close>

datatype dt_call =
    AuthorizeContract address bool
  | PayForFeature uint256
  | UseFeature address
  | WithdrawETH uint256 bool
  | Receive uint256
  | Fallback uint256
  | TransferOwnership address
  | RenounceOwnership

fun dt_dispatch :: "DToken \<Rightarrow> address \<Rightarrow> dt_call \<Rightarrow> error + DToken" where
  "dt_dispatch s sender (AuthorizeContract c a) = authorizeContract s sender c a"
| "dt_dispatch s sender (PayForFeature v) = payForFeature s sender v"
| "dt_dispatch s sender (UseFeature u) = useFeature s sender u"
| "dt_dispatch s sender (WithdrawETH a ok) = withdrawETH s sender a ok"
| "dt_dispatch s sender (Receive v) = receive s sender v"
| "dt_dispatch s sender (Fallback v) = fallback s sender v"
| "dt_dispatch s sender (TransferOwnership n) = dt_transferOwnership s sender n"
| "dt_dispatch s sender RenounceOwnership = dt_renounceOwnership s sender"

text \<open>A transaction: the call runs, and a revert leaves the state as it was.\<close>

definition dt_exec :: "DToken \<Rightarrow> address \<times> dt_call \<Rightarrow> DToken" where
  "dt_exec s tx = (case dt_dispatch s (fst tx) (snd tx) of Inl e \<Rightarrow> s | Inr s' \<Rightarrow> s')"

definition dt_run :: "DToken \<Rightarrow> (address \<times> dt_call) list \<Rightarrow> DToken" where
  "dt_run s txs = foldl dt_exec s txs"

text \<open>
  The specification's reading of the credit balance: a call changes the balance of
  a user \<open>U\<close> by the price when \<open>U\<close> calls \<open>payForFeature\<close>, by minus the price when
  \<open>useFeature(U)\<close> succeeds, and not at all otherwise.
\<close>

definition spec_balance_change :: "DToken \<Rightarrow> address \<Rightarrow> dt_call \<Rightarrow> address \<Rightarrow> bool" where
  "spec_balance_change s sender c U =
     (let before = userPayments s U; after = userPayments (dt_exec s (sender, c)) U
      in after = before
         \<or> (sender = U \<and> c = PayForFeature FEATURE_COST \<and> after = before + FEATURE_COST)
         \<or> (c = UseFeature U \<and> FEATURE_COST \<le> before \<and> after = before - FEATURE_COST))"

text \<open>What the code does: the direct transfers credit the value sent as well.\<close>

definition code_balance_change :: "DToken \<Rightarrow> address \<Rightarrow> dt_call \<Rightarrow> address \<Rightarrow> bool" where
  "code_balance_change s sender c U =
     (let before = userPayments s U; after = userPayments (dt_exec s (sender, c)) U
      in after = before
         \<or> (sender = U \<and> c = PayForFeature FEATURE_COST \<and> after = before + FEATURE_COST)
         \<or> (c = UseFeature U \<and> FEATURE_COST \<le> before \<and> after = before - FEATURE_COST)
         \<or> (sender = U \<and> (c = Receive (after - before) \<or> c = Fallback (after - before))))"

section \<open>Feature contracts\<close>

text \<open>
  Every feature contract holds the address of the ledger in the immutable \<open>dToken\<close>
  and calls it; a call from a feature contract reaches the ledger with the contract's
  own address as \<open>msg.sender\<close>. The functions below take the state of the ledger as
  an argument and return it with the state of the contract. \<open>block.timestamp\<close> and
  \<open>block.chainid\<close> are arguments (\<open>now\<close>, \<open>chainid\<close>). The length of a storage
  array is below \<open>2 ^ 256\<close>; an index of type \<open>uint256\<close> is read with \<open>unat\<close>.
\<close>

definition ANALYSIS_COST :: uint256 where
  "ANALYSIS_COST = 100000000000000"

subsection \<open>ContractAnalysis\<close>

datatype ca_event =
    ContractAnalysisRequested address string uint256
  | ContractAnalysisCompleted address string uint256 string
  | CA_PaymentReceived address uint256
  | CA_OwnershipTransferred address address

record AnalysisRequest =
  ar_user :: address
  ar_contractAddress :: string
  ar_payment :: uint256
  ar_completed :: bool
  ar_riskScore :: uint256
  ar_analysis :: string
  ar_timestamp :: uint256

record ContractAnalysis =
  ca_address :: address
  ca_owner :: address
  ca_entered :: bool
  ca_userRequests :: "address \<Rightarrow> AnalysisRequest list"
  ca_log :: "ca_event list"

definition ca_constructor :: "address \<Rightarrow> address \<Rightarrow> ContractAnalysis" where
  "ca_constructor deployer self =
     \<lparr>ca_address = self, ca_owner = deployer, ca_entered = False,
      ca_userRequests = (\<lambda>_. []),
      ca_log = [CA_OwnershipTransferred 0 deployer]\<rparr>"

definition requestContractAnalysis ::
  "DToken \<Rightarrow> ContractAnalysis \<Rightarrow> address \<Rightarrow> uint256 \<Rightarrow> string \<Rightarrow> error + DToken \<times> ContractAnalysis"
where
  "requestContractAnalysis d s sender now contractAddress =
     (if \<not> hasFeaturePayment d sender then Inl InsufficientPayment
      else if ca_entered s then Inl ReentrancyGuardReentrantCall
      else if length contractAddress = 0 then Inl InvalidContractAddress
      else case useFeature d (ca_address s) sender of
             Inl e \<Rightarrow> Inl e
           | Inr d' \<Rightarrow>
               let newRequest =
                     \<lparr>ar_user = sender, ar_contractAddress = contractAddress,
                      ar_payment = ANALYSIS_COST, ar_completed = False, ar_riskScore = 0,
                      ar_analysis = [], ar_timestamp = now\<rparr>
               in Inr (d', s\<lparr>ca_userRequests :=
                                (ca_userRequests s)(sender := ca_userRequests s sender @ [newRequest]),
                              ca_log := ca_log s @
                                [ContractAnalysisRequested sender contractAddress ANALYSIS_COST,
                                 CA_PaymentReceived sender ANALYSIS_COST]\<rparr>))"

definition completeAnalysis ::
  "ContractAnalysis \<Rightarrow> address \<Rightarrow> address \<Rightarrow> uint256 \<Rightarrow> uint256 \<Rightarrow> string \<Rightarrow> error + ContractAnalysis"
where
  "completeAnalysis s sender user requestIndex riskScore analysis =
     (if sender \<noteq> ca_owner s then Inl (OwnableUnauthorizedAccount sender)
      else if \<not> unat requestIndex < length (ca_userRequests s user)
        then Inl (Error ''Invalid request index'')
      else if ar_completed (ca_userRequests s user ! unat requestIndex)
        then Inl (Error ''Analysis already completed'')
      else
        let r = ca_userRequests s user ! unat requestIndex;
            r' = r\<lparr>ar_completed := True, ar_riskScore := riskScore, ar_analysis := analysis\<rparr>
        in Inr (s\<lparr>ca_userRequests :=
                     (ca_userRequests s)(user := (ca_userRequests s user)[unat requestIndex := r']),
                   ca_log := ca_log s @
                     [ContractAnalysisCompleted user (ar_contractAddress r') riskScore analysis]\<rparr>))"

definition ca_transferOwnership :: "ContractAnalysis \<Rightarrow> address \<Rightarrow> address \<Rightarrow> error + ContractAnalysis" where
  "ca_transferOwnership s sender newOwner =
     (if sender \<noteq> ca_owner s then Inl (OwnableUnauthorizedAccount sender)
      else if newOwner = 0 then Inl (OwnableInvalidOwner 0)
      else Inr (s\<lparr>ca_owner := newOwner,
                  ca_log := ca_log s @ [CA_OwnershipTransferred (ca_owner s) newOwner]\<rparr>))"

definition ca_renounceOwnership :: "ContractAnalysis \<Rightarrow> address \<Rightarrow> error + ContractAnalysis" where
  "ca_renounceOwnership s sender =
     (if sender \<noteq> ca_owner s then Inl (OwnableUnauthorizedAccount sender)
      else Inr (s\<lparr>ca_owner := 0,
                  ca_log := ca_log s @ [CA_OwnershipTransferred (ca_owner s) 0]\<rparr>))"

text \<open>
  The transactions on the pair of the ledger and the contract: a call to the ledger
  (from any sender), or a call to an entry point of the contract.
\<close>

datatype ca_call =
    CA_Ledger dt_call
  | RequestContractAnalysis uint256 string
  | CompleteAnalysis address uint256 uint256 string
  | CA_TransferOwnership address
  | CA_RenounceOwnership

fun ca_dispatch ::
  "DToken \<times> ContractAnalysis \<Rightarrow> address \<Rightarrow> ca_call \<Rightarrow> error + DToken \<times> ContractAnalysis"
where
  "ca_dispatch (d, s) sender (CA_Ledger c) =
     (case dt_dispatch d sender c of Inl e \<Rightarrow> Inl e | Inr d' \<Rightarrow> Inr (d', s))"
| "ca_dispatch (d, s) sender (RequestContractAnalysis now a) =
     requestContractAnalysis d s sender now a"
| "ca_dispatch (d, s) sender (CompleteAnalysis u i r t) =
     (case completeAnalysis s sender u i r t of Inl e \<Rightarrow> Inl e | Inr s' \<Rightarrow> Inr (d, s'))"
| "ca_dispatch (d, s) sender (CA_TransferOwnership n) =
     (case ca_transferOwnership s sender n of Inl e \<Rightarrow> Inl e | Inr s' \<Rightarrow> Inr (d, s'))"
| "ca_dispatch (d, s) sender CA_RenounceOwnership =
     (case ca_renounceOwnership s sender of Inl e \<Rightarrow> Inl e | Inr s' \<Rightarrow> Inr (d, s'))"

definition ca_exec :: "DToken \<times> ContractAnalysis \<Rightarrow> address \<times> ca_call \<Rightarrow> DToken \<times> ContractAnalysis" where
  "ca_exec w tx = (case ca_dispatch w (fst tx) (snd tx) of Inl e \<Rightarrow> w | Inr w' \<Rightarrow> w')"

definition ca_run ::
  "DToken \<times> ContractAnalysis \<Rightarrow> (address \<times> ca_call) list \<Rightarrow> DToken \<times> ContractAnalysis" where
  "ca_run w txs = foldl ca_exec w txs"

subsection \<open>Tokenomics\<close>

datatype tk_event =
    TokenomicsAnalysisRequested address string uint256
  | TokenomicsAnalysisCompleted address string uint256 string
  | TK_PaymentReceived address uint256
  | TK_OwnershipTransferred address address

record TokenomicsRequest =
  tr_user :: address
  tr_tokenAddress :: string
  tr_payment :: uint256
  tr_completed :: bool
  tr_healthScore :: uint256
  tr_analysis :: string
  tr_timestamp :: uint256

record Tokenomics =
  tk_address :: address
  tk_owner :: address
  tk_entered :: bool
  tk_userRequests :: "address \<Rightarrow> TokenomicsRequest list"
  tk_log :: "tk_event list"

definition tk_constructor :: "address \<Rightarrow> address \<Rightarrow> Tokenomics" where
  "tk_constructor deployer self =
     \<lparr>tk_address = self, tk_owner = deployer, tk_entered = False,
      tk_userRequests = (\<lambda>_. []),
      tk_log = [TK_OwnershipTransferred 0 deployer]\<rparr>"

definition requestTokenomicsAnalysis ::
  "DToken \<Rightarrow> Tokenomics \<Rightarrow> address \<Rightarrow> uint256 \<Rightarrow> string \<Rightarrow> error + DToken \<times> Tokenomics"
where
  "requestTokenomicsAnalysis d s sender now tokenAddress =
     (if \<not> hasFeaturePayment d sender then Inl InsufficientPayment
      else if tk_entered s then Inl ReentrancyGuardReentrantCall
      else if length tokenAddress = 0 then Inl InvalidTokenAddress
      else case useFeature d (tk_address s) sender of
             Inl e \<Rightarrow> Inl e
           | Inr d' \<Rightarrow>
               let newRequest =
                     \<lparr>tr_user = sender, tr_tokenAddress = tokenAddress,
                      tr_payment = ANALYSIS_COST, tr_completed = False, tr_healthScore = 0,
                      tr_analysis = [], tr_timestamp = now\<rparr>
               in Inr (d', s\<lparr>tk_userRequests :=
                                (tk_userRequests s)(sender := tk_userRequests s sender @ [newRequest]),
                              tk_log := tk_log s @
                                [TokenomicsAnalysisRequested sender tokenAddress ANALYSIS_COST,
                                 TK_PaymentReceived sender ANALYSIS_COST]\<rparr>))"

definition completeTokenomicsAnalysis ::
  "Tokenomics \<Rightarrow> address \<Rightarrow> address \<Rightarrow> uint256 \<Rightarrow> uint256 \<Rightarrow> string \<Rightarrow> error + Tokenomics"
where
  "completeTokenomicsAnalysis s sender user requestIndex healthScore analysis =
     (if sender \<noteq> tk_owner s then Inl (OwnableUnauthorizedAccount sender)
      else if \<not> unat requestIndex < length (tk_userRequests s user)
        then Inl (Error ''Invalid request index'')
      else if tr_completed (tk_userRequests s user ! unat requestIndex)
        then Inl (Error ''Analysis already completed'')
      else
        let r = tk_userRequests s user ! unat requestIndex;
            r' = r\<lparr>tr_completed := True, tr_healthScore := healthScore, tr_analysis := analysis\<rparr>
        in Inr (s\<lparr>tk_userRequests :=
                     (tk_userRequests s)(user := (tk_userRequests s user)[unat requestIndex := r']),
                   tk_log := tk_log s @
                     [TokenomicsAnalysisCompleted user (tr_tokenAddress r') healthScore analysis]\<rparr>))"

definition tk_transferOwnership :: "Tokenomics \<Rightarrow> address \<Rightarrow> address \<Rightarrow> error + Tokenomics" where
  "tk_transferOwnership s sender newOwner =
     (if sender \<noteq> tk_owner s then Inl (OwnableUnauthorizedAccount sender)
      else if newOwner = 0 then Inl (OwnableInvalidOwner 0)
      else Inr (s\<lparr>tk_owner := newOwner,
                  tk_log := tk_log s @ [TK_OwnershipTransferred (tk_owner s) newOwner]\<rparr>))"

definition tk_renounceOwnership :: "Tokenomics \<Rightarrow> address \<Rightarrow> error + Tokenomics" where
  "tk_renounceOwnership s sender =
     (if sender \<noteq> tk_owner s then Inl (OwnableUnauthorizedAccount sender)
      else Inr (s\<lparr>tk_owner := 0,
                  tk_log := tk_log s @ [TK_OwnershipTransferred (tk_owner s) 0]\<rparr>))"

datatype tk_call =
    TK_Ledger dt_call
  | RequestTokenomicsAnalysis uint256 string
  | CompleteTokenomicsAnalysis address uint256 uint256 string
  | TK_TransferOwnership address
  | TK_RenounceOwnership

fun tk_dispatch ::
  "DToken \<times> Tokenomics \<Rightarrow> address \<Rightarrow> tk_call \<Rightarrow> error + DToken \<times> Tokenomics"
where
  "tk_dispatch (d, s) sender (TK_Ledger c) =
     (case dt_dispatch d sender c of Inl e \<Rightarrow> Inl e | Inr d' \<Rightarrow> Inr (d', s))"
| "tk_dispatch (d, s) sender (RequestTokenomicsAnalysis now a) =
     requestTokenomicsAnalysis d s sender now a"
| "tk_dispatch (d, s) sender (CompleteTokenomicsAnalysis u i r t) =
     (case completeTokenomicsAnalysis s sender u i r t of Inl e \<Rightarrow> Inl e | Inr s' \<Rightarrow> Inr (d, s'))"
| "tk_dispatch (d, s) sender (TK_TransferOwnership n) =
     (case tk_transferOwnership s sender n of Inl e \<Rightarrow> Inl e | Inr s' \<Rightarrow> Inr (d, s'))"
| "tk_dispatch (d, s) sender TK_RenounceOwnership =
     (case tk_renounceOwnership s sender of Inl e \<Rightarrow> Inl e | Inr s' \<Rightarrow> Inr (d, s'))"

definition tk_exec :: "DToken \<times> Tokenomics \<Rightarrow> address \<times> tk_call \<Rightarrow> DToken \<times> Tokenomics" where
  "tk_exec w tx = (case tk_dispatch w (fst tx) (snd tx) of Inl e \<Rightarrow> w | Inr w' \<Rightarrow> w')"

definition tk_run ::
  "DToken \<times> Tokenomics \<Rightarrow> (address \<times> tk_call) list \<Rightarrow> DToken \<times> Tokenomics" where
  "tk_run w txs = foldl tk_exec w txs"

subsection \<open>SocialAnalysis\<close>

datatype sa_event =
    SocialAnalysisRequested address string uint256
  | SocialAnalysisCompleted address string uint256 string
  | SA_PaymentReceived address uint256
  | SA_OwnershipTransferred address address

record SocialRequest =
  sr_user :: address
  sr_tokenAddress :: string
  sr_payment :: uint256
  sr_completed :: bool
  sr_sentimentScore :: uint256
  sr_analysis :: string
  sr_timestamp :: uint256

record SocialAnalysis =
  sa_address :: address
  sa_owner :: address
  sa_entered :: bool
  sa_userRequests :: "address \<Rightarrow> SocialRequest list"
  sa_log :: "sa_event list"

definition sa_constructor :: "address \<Rightarrow> address \<Rightarrow> SocialAnalysis" where
  "sa_constructor deployer self =
     \<lparr>sa_address = self, sa_owner = deployer, sa_entered = False,
      sa_userRequests = (\<lambda>_. []),
      sa_log = [SA_OwnershipTransferred 0 deployer]\<rparr>"

definition requestSocialAnalysis ::
  "DToken \<Rightarrow> SocialAnalysis \<Rightarrow> address \<Rightarrow> uint256 \<Rightarrow> string \<Rightarrow> error + DToken \<times> SocialAnalysis"
where
  "requestSocialAnalysis d s sender now tokenAddress =
     (if \<not> hasFeaturePayment d sender then Inl InsufficientPayment
      else if sa_entered s then Inl ReentrancyGuardReentrantCall
      else if length tokenAddress = 0 then Inl InvalidTokenAddress
      else case useFeature d (sa_address s) sender of
             Inl e \<Rightarrow> Inl e
           | Inr d' \<Rightarrow>
               let newRequest =
                     \<lparr>sr_user = sender, sr_tokenAddress = tokenAddress,
                      sr_payment = ANALYSIS_COST, sr_completed = False, sr_sentimentScore = 0,
                      sr_analysis = [], sr_timestamp = now\<rparr>
               in Inr (d', s\<lparr>sa_userRequests :=
                                (sa_userRequests s)(sender := sa_userRequests s sender @ [newRequest]),
                              sa_log := sa_log s @
                                [SocialAnalysisRequested sender tokenAddress ANALYSIS_COST,
                                 SA_PaymentReceived sender ANALYSIS_COST]\<rparr>))"

definition completeSocialAnalysis ::
  "SocialAnalysis \<Rightarrow> address \<Rightarrow> address \<Rightarrow> uint256 \<Rightarrow> uint256 \<Rightarrow> string \<Rightarrow> error + SocialAnalysis"
where
  "completeSocialAnalysis s sender user requestIndex sentimentScore analysis =
     (if sender \<noteq> sa_owner s then Inl (OwnableUnauthorizedAccount sender)
      else if \<not> unat requestIndex < length (sa_userRequests s user)
        then Inl (Error ''Invalid request index'')
      else if sr_completed (sa_userRequests s user ! unat requestIndex)
        then Inl (Error ''Analysis already completed'')
      else
        let r = sa_userRequests s user ! unat requestIndex;
            r' = r\<lparr>sr_completed := True, sr_sentimentScore := sentimentScore, sr_analysis := analysis\<rparr>
        in Inr (s\<lparr>sa_userRequests :=
                     (sa_userRequests s)(user := (sa_userRequests s user)[unat requestIndex := r']),
                   sa_log := sa_log s @
                     [SocialAnalysisCompleted user (sr_tokenAddress r') sentimentScore analysis]\<rparr>))"

definition sa_transferOwnership :: "SocialAnalysis \<Rightarrow> address \<Rightarrow> address \<Rightarrow> error + SocialAnalysis" where
  "sa_transferOwnership s sender newOwner =
     (if sender \<noteq> sa_owner s then Inl (OwnableUnauthorizedAccount sender)
      else if newOwner = 0 then Inl (OwnableInvalidOwner 0)
      else Inr (s\<lparr>sa_owner := newOwner,
                  sa_log := sa_log s @ [SA_OwnershipTransferred (sa_owner s) newOwner]\<rparr>))"

definition sa_renounceOwnership :: "SocialAnalysis \<Rightarrow> address \<Rightarrow> error + SocialAnalysis" where
  "sa_renounceOwnership s sender =
     (if sender \<noteq> sa_owner s then Inl (OwnableUnauthorizedAccount sender)
      else Inr (s\<lparr>sa_owner := 0,
                  sa_log := sa_log s @ [SA_OwnershipTransferred (sa_owner s) 0]\<rparr>))"

datatype sa_call =
    SA_Ledger dt_call
  | RequestSocialAnalysis uint256 string
  | CompleteSocialAnalysis address uint256 uint256 string
  | SA_TransferOwnership address
  | SA_RenounceOwnership

fun sa_dispatch ::
  "DToken \<times> SocialAnalysis \<Rightarrow> address \<Rightarrow> sa_call \<Rightarrow> error + DToken \<times> SocialAnalysis"
where
  "sa_dispatch (d, s) sender (SA_Ledger c) =
     (case dt_dispatch d sender c of Inl e \<Rightarrow> Inl e | Inr d' \<Rightarrow> Inr (d', s))"
| "sa_dispatch (d, s) sender (RequestSocialAnalysis now a) =
     requestSocialAnalysis d s sender now a"
| "sa_dispatch (d, s) sender (CompleteSocialAnalysis u i r t) =
     (case completeSocialAnalysis s sender u i r t of Inl e \<Rightarrow> Inl e | Inr s' \<Rightarrow> Inr (d, s'))"
| "sa_dispatch (d, s) sender (SA_TransferOwnership n) =
     (case sa_transferOwnership s sender n of Inl e \<Rightarrow> Inl e | Inr s' \<Rightarrow> Inr (d, s'))"
| "sa_dispatch (d, s) sender SA_RenounceOwnership =
     (case sa_renounceOwnership s sender of Inl e \<Rightarrow> Inl e | Inr s' \<Rightarrow> Inr (d, s'))"

definition sa_exec :: "DToken \<times> SocialAnalysis \<Rightarrow> address \<times> sa_call \<Rightarrow> DToken \<times> SocialAnalysis" where
  "sa_exec w tx = (case sa_dispatch w (fst tx) (snd tx) of Inl e \<Rightarrow> w | Inr w' \<Rightarrow> w')"

definition sa_run ::
  "DToken \<times> SocialAnalysis \<Rightarrow> (address \<times> sa_call) list \<Rightarrow> DToken \<times> SocialAnalysis" where
  "sa_run w txs = foldl sa_exec w txs"

subsection \<open>Universal: the message log\<close>

definition MESSAGE_COST :: uint256 where
  "MESSAGE_COST = 100000000000000"

datatype un_event =
    MessageSent address address string uint256
  | CrossChainMessageSent address uint256 address string
  | UN_PaymentReceived address uint256
  | UN_OwnershipTransferred address address

record Message =
  m_sender :: address
  m_recipient :: address
  m_content :: string
  m_timestamp :: uint256
  m_payment :: uint256
  m_crossChain :: bool
  m_destinationChain :: uint256

record Universal =
  un_address :: address
  un_owner :: address
  un_entered :: bool
  userMessages :: "address \<Rightarrow> Message list"
  receivedMessages :: "address \<Rightarrow> Message list"
  allMessages :: "Message list"
  un_log :: "un_event list"

definition un_constructor :: "address \<Rightarrow> address \<Rightarrow> Universal" where
  "un_constructor deployer self =
     \<lparr>un_address = self, un_owner = deployer, un_entered = False,
      userMessages = (\<lambda>_. []), receivedMessages = (\<lambda>_. []), allMessages = [],
      un_log = [UN_OwnershipTransferred 0 deployer]\<rparr>"

definition sendMessage ::
  "DToken \<Rightarrow> Universal \<Rightarrow> address \<Rightarrow> uint256 \<Rightarrow> uint256 \<Rightarrow> address \<Rightarrow> string
     \<Rightarrow> error + DToken \<times> Universal"
where
  "sendMessage d s sender now chainid recipient message =
     (if \<not> hasFeaturePayment d sender then Inl InsufficientPayment
      else if un_entered s then Inl ReentrancyGuardReentrantCall
      else if recipient = 0 then Inl InvalidRecipient
      else if length message = 0 then Inl InvalidMessage
      else case useFeature d (un_address s) sender of
             Inl e \<Rightarrow> Inl e
           | Inr d' \<Rightarrow>
               let newMessage =
                     \<lparr>m_sender = sender, m_recipient = recipient, m_content = message,
                      m_timestamp = now, m_payment = MESSAGE_COST, m_crossChain = False,
                      m_destinationChain = chainid\<rparr>
               in Inr (d', s\<lparr>userMessages :=
                                (userMessages s)(sender := userMessages s sender @ [newMessage]),
                              receivedMessages :=
                                (receivedMessages s)(recipient := receivedMessages s recipient @ [newMessage]),
                              allMessages := allMessages s @ [newMessage],
                              un_log := un_log s @
                                [MessageSent sender recipient message MESSAGE_COST,
                                 UN_PaymentReceived sender MESSAGE_COST]\<rparr>))"

definition sendCrossChainMessage ::
  "DToken \<Rightarrow> Universal \<Rightarrow> address \<Rightarrow> uint256 \<Rightarrow> uint256 \<Rightarrow> uint256 \<Rightarrow> address \<Rightarrow> string
     \<Rightarrow> error + DToken \<times> Universal"
where
  "sendCrossChainMessage d s sender now chainid destinationChain recipient message =
     (if \<not> hasFeaturePayment d sender then Inl InsufficientPayment
      else if un_entered s then Inl ReentrancyGuardReentrantCall
      else if recipient = 0 then Inl InvalidRecipient
      else if length message = 0 then Inl InvalidMessage
      else if destinationChain = chainid then Inl InvalidRecipient
      else case useFeature d (un_address s) sender of
             Inl e \<Rightarrow> Inl e
           | Inr d' \<Rightarrow>
               let newMessage =
                     \<lparr>m_sender = sender, m_recipient = recipient, m_content = message,
                      m_timestamp = now, m_payment = MESSAGE_COST, m_crossChain = True,
                      m_destinationChain = destinationChain\<rparr>
               in Inr (d', s\<lparr>userMessages :=
                                (userMessages s)(sender := userMessages s sender @ [newMessage]),
                              allMessages := allMessages s @ [newMessage],
                              un_log := un_log s @
                                [CrossChainMessageSent sender destinationChain recipient message,
                                 UN_PaymentReceived sender MESSAGE_COST]\<rparr>))"

definition un_transferOwnership :: "Universal \<Rightarrow> address \<Rightarrow> address \<Rightarrow> error + Universal" where
  "un_transferOwnership s sender newOwner =
     (if sender \<noteq> un_owner s then Inl (OwnableUnauthorizedAccount sender)
      else if newOwner = 0 then Inl (OwnableInvalidOwner 0)
      else Inr (s\<lparr>un_owner := newOwner,
                  un_log := un_log s @ [UN_OwnershipTransferred (un_owner s) newOwner]\<rparr>))"

definition un_renounceOwnership :: "Universal \<Rightarrow> address \<Rightarrow> error + Universal" where
  "un_renounceOwnership s sender =
     (if sender \<noteq> un_owner s then Inl (OwnableUnauthorizedAccount sender)
      else Inr (s\<lparr>un_owner := 0,
                  un_log := un_log s @ [UN_OwnershipTransferred (un_owner s) 0]\<rparr>))"

text \<open>
  The state-changing entry points of the message log; the two sends carry
  \<open>block.timestamp\<close> and \<open>block.chainid\<close> first.
\<close>

datatype un_call =
    SendMessage uint256 uint256 address string
  | SendCrossChainMessage uint256 uint256 uint256 address string
  | UN_TransferOwnership address
  | UN_RenounceOwnership

fun un_dispatch ::
  "DToken \<times> Universal \<Rightarrow> address \<Rightarrow> un_call \<Rightarrow> error + DToken \<times> Universal"
where
  "un_dispatch (d, s) sender (SendMessage now cid r m) = sendMessage d s sender now cid r m"
| "un_dispatch (d, s) sender (SendCrossChainMessage now cid dst r m) =
     sendCrossChainMessage d s sender now cid dst r m"
| "un_dispatch (d, s) sender (UN_TransferOwnership n) =
     (case un_transferOwnership s sender n of Inl e \<Rightarrow> Inl e | Inr s' \<Rightarrow> Inr (d, s'))"
| "un_dispatch (d, s) sender UN_RenounceOwnership =
     (case un_renounceOwnership s sender of Inl e \<Rightarrow> Inl e | Inr s' \<Rightarrow> Inr (d, s'))"

definition un_exec :: "DToken \<times> Universal \<Rightarrow> address \<times> un_call \<Rightarrow> DToken \<times> Universal" where
  "un_exec w tx = (case un_dispatch w (fst tx) (snd tx) of Inl e \<Rightarrow> w | Inr w' \<Rightarrow> w')"

definition un_run ::
  "DToken \<times> Universal \<Rightarrow> (address \<times> un_call) list \<Rightarrow> DToken \<times> Universal" where
  "un_run w txs = foldl un_exec w txs"

text \<open>
  \<open>getAllMessages\<close>: the loop copies \<open>allMessages[i]\<close> to \<open>result[i - offset]\<close> for
  \<open>i\<close> from \<open>offset\<close> up to \<open>end\<close>; both accesses are checked against the lengths, and
  \<open>result\<close> starts as \<open>end - offset\<close> zero-initialised messages.
\<close>

definition zero_Message :: Message where
  "zero_Message =
     \<lparr>m_sender = 0, m_recipient = 0, m_content = [], m_timestamp = 0, m_payment = 0,
      m_crossChain = False, m_destinationChain = 0\<rparr>"

function getAllMessages_loop ::
  "Message list \<Rightarrow> nat \<Rightarrow> nat \<Rightarrow> nat \<Rightarrow> Message list \<Rightarrow> error + Message list"
where
  "getAllMessages_loop msgs offset end i result =
     (if i < end then
        (if \<not> i < length msgs \<or> \<not> i - offset < length result then Inl (Panic 50)
         else getAllMessages_loop msgs offset end (i + 1) (result[i - offset := msgs ! i]))
      else Inr result)"
  by pat_completeness auto
termination
  by (relation "measure (\<lambda>(msgs, offset, end, i, result). end - i)") auto

declare getAllMessages_loop.simps [simp del]

definition getAllMessages :: "Universal \<Rightarrow> uint256 \<Rightarrow> uint256 \<Rightarrow> error + Message list" where
  "getAllMessages s offset limit =
     (let total = length (allMessages s)
      in if unat offset \<ge> total then Inr []
         else case checked_add offset limit of
                Inl e \<Rightarrow> Inl e
              | Inr end0 \<Rightarrow>
                  let end = (if unat end0 > total then total else unat end0)
                  in getAllMessages_loop (allMessages s) (unat offset) end (unat offset)
                       (replicate (end - unat offset) zero_Message))"

text \<open>
  The specification's paginated read: the slice \<open>[offset, min (offset + limit) total)\<close>
  of the list, with \<open>offset + limit\<close> the sum of the two numbers.
\<close>

definition spec_listMessages :: "'a list \<Rightarrow> nat \<Rightarrow> nat \<Rightarrow> 'a list" where
  "spec_listMessages xs offset limit =
     take (min (offset + limit) (length xs) - offset) (drop offset xs)"

subsection \<open>Monitoring\<close>

definition MONITORING_COST :: uint256 where
  "MONITORING_COST = 100000000000000"

datatype mo_event =
    MonitoringRequested address string uint256
  | MonitoringSetup address string uint256
  | AlertTriggered address string string uint256
  | MO_PaymentReceived address uint256
  | MO_OwnershipTransferred address address

record MonitoringRequest =
  mr_user :: address
  mr_tokenAddress :: string
  mr_payment :: uint256
  mr_active :: bool
  mr_alertThreshold :: uint256
  mr_timestamp :: uint256
  mr_alertCount :: uint256

record Monitoring =
  mo_address :: address
  mo_owner :: address
  mo_entered :: bool
  userMonitoring :: "address \<Rightarrow> MonitoringRequest list"
  tokenMonitors :: "string \<Rightarrow> address list"
  mo_log :: "mo_event list"

definition mo_constructor :: "address \<Rightarrow> address \<Rightarrow> Monitoring" where
  "mo_constructor deployer self =
     \<lparr>mo_address = self, mo_owner = deployer, mo_entered = False,
      userMonitoring = (\<lambda>_. []), tokenMonitors = (\<lambda>_. []),
      mo_log = [MO_OwnershipTransferred 0 deployer]\<rparr>"

definition requestMonitoring ::
  "DToken \<Rightarrow> Monitoring \<Rightarrow> address \<Rightarrow> uint256 \<Rightarrow> string \<Rightarrow> uint256 \<Rightarrow> error + DToken \<times> Monitoring"
where
  "requestMonitoring d s sender now tokenAddress alertThreshold =
     (if \<not> hasFeaturePayment d sender then Inl InsufficientPayment
      else if mo_entered s then Inl ReentrancyGuardReentrantCall
      else if length tokenAddress = 0 then Inl InvalidTokenAddress
      else case useFeature d (mo_address s) sender of
             Inl e \<Rightarrow> Inl e
           | Inr d' \<Rightarrow>
               let newRequest =
                     \<lparr>mr_user = sender, mr_tokenAddress = tokenAddress,
                      mr_payment = MONITORING_COST, mr_active = True,
                      mr_alertThreshold = alertThreshold, mr_timestamp = now,
                      mr_alertCount = 0\<rparr>
               in Inr (d', s\<lparr>userMonitoring :=
                                (userMonitoring s)(sender := userMonitoring s sender @ [newRequest]),
                              tokenMonitors :=
                                (tokenMonitors s)(tokenAddress := tokenMonitors s tokenAddress @ [sender]),
                              mo_log := mo_log s @
                                [MonitoringRequested sender tokenAddress MONITORING_COST,
                                 MonitoringSetup sender tokenAddress alertThreshold,
                                 MO_PaymentReceived sender MONITORING_COST]\<rparr>))"

text \<open>
  The inner loop of \<open>triggerAlert\<close>, over the requests of one user (a storage
  reference: the updates are written to the state), from index \<open>j\<close>.
\<close>

function triggerAlert_requests ::
  "address \<Rightarrow> string \<Rightarrow> string \<Rightarrow> uint256 \<Rightarrow> nat \<Rightarrow> Monitoring \<Rightarrow> error + Monitoring"
where
  "triggerAlert_requests user tokenAddress alertType val j s =
     (let requests = userMonitoring s user
      in if j < length requests then
           (if mr_tokenAddress (requests ! j) = tokenAddress \<and> mr_active (requests ! j) then
              (case checked_add (mr_alertCount (requests ! j)) 1 of
                 Inl e \<Rightarrow> Inl e
               | Inr c \<Rightarrow>
                   triggerAlert_requests user tokenAddress alertType val (j + 1)
                     (s\<lparr>userMonitoring :=
                          (userMonitoring s)(user := requests[j := (requests ! j)\<lparr>mr_alertCount := c\<rparr>]),
                        mo_log := mo_log s @ [AlertTriggered user tokenAddress alertType val]\<rparr>))
            else triggerAlert_requests user tokenAddress alertType val (j + 1) s)
         else Inr s)"
  by pat_completeness auto
termination
  by (relation "measure (\<lambda>(user, tokenAddress, alertType, val, j, s).
        length (userMonitoring s user) - j)") auto

declare triggerAlert_requests.simps [simp del]

text \<open>The outer loop, over the copy of \<open>tokenMonitors[tokenAddress]\<close> taken on entry.\<close>

function triggerAlert_monitors ::
  "address list \<Rightarrow> string \<Rightarrow> string \<Rightarrow> uint256 \<Rightarrow> nat \<Rightarrow> Monitoring \<Rightarrow> error + Monitoring"
where
  "triggerAlert_monitors monitors tokenAddress alertType val i s =
     (if i < length monitors then
        (case triggerAlert_requests (monitors ! i) tokenAddress alertType val 0 s of
           Inl e \<Rightarrow> Inl e
         | Inr s' \<Rightarrow> triggerAlert_monitors monitors tokenAddress alertType val (i + 1) s')
      else Inr s)"
  by pat_completeness auto
termination
  by (relation "measure (\<lambda>(monitors, tokenAddress, alertType, val, i, s).
        length monitors - i)") auto

declare triggerAlert_monitors.simps [simp del]

definition triggerAlert ::
  "Monitoring \<Rightarrow> address \<Rightarrow> string \<Rightarrow> string \<Rightarrow> uint256 \<Rightarrow> error + Monitoring"
where
  "triggerAlert s sender tokenAddress alertType val =
     (if sender \<noteq> mo_owner s then Inl (OwnableUnauthorizedAccount sender)
      else triggerAlert_monitors (tokenMonitors s tokenAddress) tokenAddress alertType val 0 s)"

definition stopMonitoring :: "Monitoring \<Rightarrow> address \<Rightarrow> uint256 \<Rightarrow> error + Monitoring" where
  "stopMonitoring s sender requestIndex =
     (if \<not> unat requestIndex < length (userMonitoring s sender)
        then Inl (Error ''Invalid request index'')
      else if \<not> mr_active (userMonitoring s sender ! unat requestIndex)
        then Inl (Error ''Monitoring already stopped'')
      else Inr (s\<lparr>userMonitoring :=
                   (userMonitoring s)(sender :=
                      (userMonitoring s sender)[unat requestIndex :=
                         (userMonitoring s sender ! unat requestIndex)\<lparr>mr_active := False\<rparr>])\<rparr>))"

definition mo_transferOwnership :: "Monitoring \<Rightarrow> address \<Rightarrow> address \<Rightarrow> error + Monitoring" where
  "mo_transferOwnership s sender newOwner =
     (if sender \<noteq> mo_owner s then Inl (OwnableUnauthorizedAccount sender)
      else if newOwner = 0 then Inl (OwnableInvalidOwner 0)
      else Inr (s\<lparr>mo_owner := newOwner,
                  mo_log := mo_log s @ [MO_OwnershipTransferred (mo_owner s) newOwner]\<rparr>))"

definition mo_renounceOwnership :: "Monitoring \<Rightarrow> address \<Rightarrow> error + Monitoring" where
  "mo_renounceOwnership s sender =
     (if sender \<noteq> mo_owner s then Inl (OwnableUnauthorizedAccount sender)
      else Inr (s\<lparr>mo_owner := 0,
                  mo_log := mo_log s @ [MO_OwnershipTransferred (mo_owner s) 0]\<rparr>))"

datatype mo_call =
    RequestMonitoring uint256 string uint256
  | TriggerAlert string string uint256
  | StopMonitoring uint256
  | MO_TransferOwnership address
  | MO_RenounceOwnership

fun mo_dispatch ::
  "DToken \<times> Monitoring \<Rightarrow> address \<Rightarrow> mo_call \<Rightarrow> error + DToken \<times> Monitoring"
where
  "mo_dispatch (d, s) sender (RequestMonitoring now a th) = requestMonitoring d s sender now a th"
| "mo_dispatch (d, s) sender (TriggerAlert a ty v) =
     (case triggerAlert s sender a ty v of Inl e \<Rightarrow> Inl e | Inr s' \<Rightarrow> Inr (d, s'))"
| "mo_dispatch (d, s) sender (StopMonitoring i) =
     (case stopMonitoring s sender i of Inl e \<Rightarrow> Inl e | Inr s' \<Rightarrow> Inr (d, s'))"
| "mo_dispatch (d, s) sender (MO_TransferOwnership n) =
     (case mo_transferOwnership s sender n of Inl e \<Rightarrow> Inl e | Inr s' \<Rightarrow> Inr (d, s'))"
| "mo_dispatch (d, s) sender MO_RenounceOwnership =
     (case mo_renounceOwnership s sender of Inl e \<Rightarrow> Inl e | Inr s' \<Rightarrow> Inr (d, s'))"

definition mo_exec :: "DToken \<times> Monitoring \<Rightarrow> address \<times> mo_call \<Rightarrow> DToken \<times> Monitoring" where
  "mo_exec w tx = (case mo_dispatch w (fst tx) (snd tx) of Inl e \<Rightarrow> w | Inr w' \<Rightarrow> w')"

definition mo_run ::
  "DToken \<times> Monitoring \<Rightarrow> (address \<times> mo_call) list \<Rightarrow> DToken \<times> Monitoring" where
  "mo_run w txs = foldl mo_exec w txs"

subsection \<open>DomainManagement\<close>

datatype dm_event =
    DomainTokenized string address uint256
  | DomainRightGranted string string address uint256
  | DomainRightRevoked string string address
  | DomainTransferred string address address
  | DomainStateSync string bool
  | DM_OwnershipTransferred address address

record Domain =
  d_name :: string
  d_owner :: address
  d_isTokenized :: bool
  d_tokenizedAt :: uint256
  d_rights :: "string \<Rightarrow> address"
  d_isActive :: bool

record DomainRights =
  r_rightName :: string
  r_description :: string
  r_holder :: address
  r_grantedAt :: uint256
  r_expiresAt :: uint256

record DomainManagement =
  dm_address :: address
  dm_owner :: address
  dm_entered :: bool
  domains :: "string \<Rightarrow> Domain"
  domainRights :: "string \<Rightarrow> DomainRights list"
  userDomains :: "address \<Rightarrow> string list"
  allDomains :: "string list"
  dm_log :: "dm_event list"

definition zero_Domain :: Domain where
  "zero_Domain =
     \<lparr>d_name = [], d_owner = 0, d_isTokenized = False, d_tokenizedAt = 0,
      d_rights = (\<lambda>_. 0), d_isActive = False\<rparr>"

definition dm_constructor :: "address \<Rightarrow> address \<Rightarrow> DomainManagement" where
  "dm_constructor deployer self =
     \<lparr>dm_address = self, dm_owner = deployer, dm_entered = False,
      domains = (\<lambda>_. zero_Domain), domainRights = (\<lambda>_. []), userDomains = (\<lambda>_. []),
      allDomains = [], dm_log = [DM_OwnershipTransferred 0 deployer]\<rparr>"

definition tokenizeDomain ::
  "DToken \<Rightarrow> DomainManagement \<Rightarrow> address \<Rightarrow> uint256 \<Rightarrow> string \<Rightarrow> error + DToken \<times> DomainManagement"
where
  "tokenizeDomain d s sender now domainName =
     (if dm_entered s then Inl ReentrancyGuardReentrantCall
      else if length domainName = 0 then Inl InvalidDomainName
      else if d_isTokenized (domains s domainName) then Inl DomainAlreadyTokenized
      else case useFeature d (dm_address s) sender of
             Inl e \<Rightarrow> Inl e
           | Inr d' \<Rightarrow>
               Inr (d', s\<lparr>domains := (domains s)(domainName :=
                                (domains s domainName)
                                  \<lparr>d_name := domainName, d_owner := sender, d_isTokenized := True,
                                   d_tokenizedAt := now, d_isActive := True\<rparr>),
                           allDomains := allDomains s @ [domainName],
                           userDomains := (userDomains s)(sender := userDomains s sender @ [domainName]),
                           dm_log := dm_log s @ [DomainTokenized domainName sender now]\<rparr>))"

definition grantDomainRight ::
  "DToken \<Rightarrow> DomainManagement \<Rightarrow> address \<Rightarrow> uint256 \<Rightarrow> string \<Rightarrow> string \<Rightarrow> address \<Rightarrow> uint256
     \<Rightarrow> error + DToken \<times> DomainManagement"
where
  "grantDomainRight d s sender now domainName rightName holder duration =
     (if length (d_name (domains s domainName)) = 0 then Inl DomainNotExists
      else if d_owner (domains s domainName) \<noteq> sender then Inl NotDomainOwner
      else if dm_entered s then Inl ReentrancyGuardReentrantCall
      else case useFeature d (dm_address s) sender of
             Inl e \<Rightarrow> Inl e
           | Inr d' \<Rightarrow>
              (case (if duration = 0 then Inr 0 else checked_add now duration) of
                 Inl e \<Rightarrow> Inl e
               | Inr expiresAt \<Rightarrow>
                   let newRight =
                         \<lparr>r_rightName = rightName,
                          r_description = ''Right: '' @ rightName @ '' for domain: '' @ domainName,
                          r_holder = holder, r_grantedAt = now, r_expiresAt = expiresAt\<rparr>
                   in Inr (d', s\<lparr>domains := (domains s)(domainName :=
                                    (domains s domainName)
                                      \<lparr>d_rights := (d_rights (domains s domainName))(rightName := holder)\<rparr>),
                                  domainRights := (domainRights s)(domainName :=
                                    domainRights s domainName @ [newRight]),
                                  dm_log := dm_log s @
                                    [DomainRightGranted domainName rightName holder expiresAt]\<rparr>)))"

definition revokeDomainRight ::
  "DomainManagement \<Rightarrow> address \<Rightarrow> string \<Rightarrow> string \<Rightarrow> error + DomainManagement"
where
  "revokeDomainRight s sender domainName rightName =
     (if length (d_name (domains s domainName)) = 0 then Inl DomainNotExists
      else if d_owner (domains s domainName) \<noteq> sender then Inl NotDomainOwner
      else
        let rightHolder = d_rights (domains s domainName) rightName
        in if rightHolder = 0 then Inl RightNotExists
           else Inr (s\<lparr>domains := (domains s)(domainName :=
                          (domains s domainName)
                            \<lparr>d_rights := (d_rights (domains s domainName))(rightName := 0)\<rparr>),
                        dm_log := dm_log s @ [DomainRightRevoked domainName rightName rightHolder]\<rparr>))"

text \<open>
  The loop of \<open>transferDomain\<close> over the old owner's list, from index \<open>i\<close>: the first
  entry equal to the name is overwritten with the last entry, the list loses its
  last entry, and the loop ends.
\<close>

function transferDomain_remove :: "string list \<Rightarrow> string \<Rightarrow> nat \<Rightarrow> string list" where
  "transferDomain_remove fromDomains domainName i =
     (if i < length fromDomains then
        (if fromDomains ! i = domainName
           then butlast (fromDomains[i := fromDomains ! (length fromDomains - 1)])
           else transferDomain_remove fromDomains domainName (i + 1))
      else fromDomains)"
  by pat_completeness auto
termination
  by (relation "measure (\<lambda>(fromDomains, domainName, i). length fromDomains - i)") auto

declare transferDomain_remove.simps [simp del]

text \<open>
  \<open>userDomains[to]\<close> is extended first and \<open>userDomains[from]\<close> is read afterwards, so
  for a transfer to oneself the loop runs over the extended list.
\<close>

definition transferDomain ::
  "DToken \<Rightarrow> DomainManagement \<Rightarrow> address \<Rightarrow> string \<Rightarrow> address \<Rightarrow> error + DToken \<times> DomainManagement"
where
  "transferDomain d s sender domainName to =
     (if length (d_name (domains s domainName)) = 0 then Inl DomainNotExists
      else if d_owner (domains s domainName) \<noteq> sender then Inl NotDomainOwner
      else if dm_entered s then Inl ReentrancyGuardReentrantCall
      else case useFeature d (dm_address s) sender of
             Inl e \<Rightarrow> Inl e
           | Inr d' \<Rightarrow>
               let from = d_owner (domains s domainName);
                   pushed = (userDomains s)(to := userDomains s to @ [domainName]);
                   removed = pushed(from := transferDomain_remove (pushed from) domainName 0)
               in Inr (d', s\<lparr>domains := (domains s)(domainName :=
                                (domains s domainName)\<lparr>d_owner := to\<rparr>),
                              userDomains := removed,
                              dm_log := dm_log s @ [DomainTransferred domainName from to]\<rparr>))"

definition syncDomainState ::
  "DomainManagement \<Rightarrow> address \<Rightarrow> string \<Rightarrow> bool \<Rightarrow> error + DomainManagement"
where
  "syncDomainState s sender domainName isActive =
     (if sender \<noteq> dm_owner s then Inl (OwnableUnauthorizedAccount sender)
      else if length (d_name (domains s domainName)) = 0 then Inl DomainNotExists
      else Inr (s\<lparr>domains := (domains s)(domainName :=
                     (domains s domainName)\<lparr>d_isActive := isActive\<rparr>),
                  dm_log := dm_log s @ [DomainStateSync domainName isActive]\<rparr>))"

text \<open>
  The loop of \<open>hasRight\<close> over the grant history, from index \<open>i\<close>: at the first record
  with the right's name and the user as holder it returns whether that record is
  unexpired (\<open>return true\<close>, or \<open>break\<close> and then \<open>return false\<close>).
\<close>

function hasRight_loop :: "DomainRights list \<Rightarrow> string \<Rightarrow> address \<Rightarrow> uint256 \<Rightarrow> nat \<Rightarrow> bool" where
  "hasRight_loop rights rightName user now i =
     (if i < length rights then
        (if r_rightName (rights ! i) = rightName \<and> r_holder (rights ! i) = user
           then (r_expiresAt (rights ! i) = 0 \<or> r_expiresAt (rights ! i) > now)
           else hasRight_loop rights rightName user now (i + 1))
      else False)"
  by pat_completeness auto
termination
  by (relation "measure (\<lambda>(rights, rightName, user, now, i). length rights - i)") auto

declare hasRight_loop.simps [simp del]

definition hasRight ::
  "DomainManagement \<Rightarrow> uint256 \<Rightarrow> string \<Rightarrow> string \<Rightarrow> address \<Rightarrow> error + bool"
where
  "hasRight s now domainName rightName user =
     (if length (d_name (domains s domainName)) = 0 then Inl DomainNotExists
      else
        let rightHolder = d_rights (domains s domainName) rightName
        in if rightHolder \<noteq> user then Inr False
           else Inr (hasRight_loop (domainRights s domainName) rightName user now 0))"

definition getUserDomains :: "DomainManagement \<Rightarrow> address \<Rightarrow> string list" where
  "getUserDomains s user = userDomains s user"

definition dm_transferOwnership ::
  "DomainManagement \<Rightarrow> address \<Rightarrow> address \<Rightarrow> error + DomainManagement" where
  "dm_transferOwnership s sender newOwner =
     (if sender \<noteq> dm_owner s then Inl (OwnableUnauthorizedAccount sender)
      else if newOwner = 0 then Inl (OwnableInvalidOwner 0)
      else Inr (s\<lparr>dm_owner := newOwner,
                  dm_log := dm_log s @ [DM_OwnershipTransferred (dm_owner s) newOwner]\<rparr>))"

definition dm_renounceOwnership :: "DomainManagement \<Rightarrow> address \<Rightarrow> error + DomainManagement" where
  "dm_renounceOwnership s sender =
     (if sender \<noteq> dm_owner s then Inl (OwnableUnauthorizedAccount sender)
      else Inr (s\<lparr>dm_owner := 0,
                  dm_log := dm_log s @ [DM_OwnershipTransferred (dm_owner s) 0]\<rparr>))"

text \<open>
  The transactions on the pair of the ledger and the registry; the calls that read
  \<open>block.timestamp\<close> carry it first.
\<close>

datatype dm_call =
    DM_Ledger dt_call
  | TokenizeDomain uint256 string
  | GrantDomainRight uint256 string string address uint256
  | RevokeDomainRight string string
  | TransferDomain string address
  | SyncDomainState string bool
  | DM_TransferOwnership address
  | DM_RenounceOwnership

fun dm_dispatch ::
  "DToken \<times> DomainManagement \<Rightarrow> address \<Rightarrow> dm_call \<Rightarrow> error + DToken \<times> DomainManagement"
where
  "dm_dispatch (d, s) sender (DM_Ledger c) =
     (case dt_dispatch d sender c of Inl e \<Rightarrow> Inl e | Inr d' \<Rightarrow> Inr (d', s))"
| "dm_dispatch (d, s) sender (TokenizeDomain now n) = tokenizeDomain d s sender now n"
| "dm_dispatch (d, s) sender (GrantDomainRight now n r h dur) =
     grantDomainRight d s sender now n r h dur"
| "dm_dispatch (d, s) sender (RevokeDomainRight n r) =
     (case revokeDomainRight s sender n r of Inl e \<Rightarrow> Inl e | Inr s' \<Rightarrow> Inr (d, s'))"
| "dm_dispatch (d, s) sender (TransferDomain n to) = transferDomain d s sender n to"
| "dm_dispatch (d, s) sender (SyncDomainState n a) =
     (case syncDomainState s sender n a of Inl e \<Rightarrow> Inl e | Inr s' \<Rightarrow> Inr (d, s'))"
| "dm_dispatch (d, s) sender (DM_TransferOwnership n) =
     (case dm_transferOwnership s sender n of Inl e \<Rightarrow> Inl e | Inr s' \<Rightarrow> Inr (d, s'))"
| "dm_dispatch (d, s) sender DM_RenounceOwnership =
     (case dm_renounceOwnership s sender of Inl e \<Rightarrow> Inl e | Inr s' \<Rightarrow> Inr (d, s'))"

definition dm_exec ::
  "DToken \<times> DomainManagement \<Rightarrow> address \<times> dm_call \<Rightarrow> DToken \<times> DomainManagement" where
  "dm_exec w tx = (case dm_dispatch w (fst tx) (snd tx) of Inl e \<Rightarrow> w | Inr w' \<Rightarrow> w')"

definition dm_run ::
  "DToken \<times> DomainManagement \<Rightarrow> (address \<times> dm_call) list \<Rightarrow> DToken \<times> DomainManagement" where
  "dm_run w txs = foldl dm_exec w txs"

text \<open>
  A ledger used in the examples: account 1 deploys it and authorizes the contract at
  address 7, then account 5 deposits the price once.
\<close>

definition w_ledger :: DToken where
  "w_ledger = dt_run (dt_constructor 1) [(1, AuthorizeContract 7 True), (5, PayForFeature FEATURE_COST)]"

text \<open>
  In the examples below, on the ledger above, account 1 deploys ContractAnalysis
  (and Tokenomics, and SocialAnalysis) at address 7, account 5 requests an
  analysis, and the owner completes it with score 82.
\<close>

definition w_analysis :: "DToken \<times> ContractAnalysis" where
  "w_analysis = ca_run (w_ledger, ca_constructor 1 7)
     [(5, RequestContractAnalysis 1000 ''0xAbc''), (1, CompleteAnalysis 5 0 82 ''low risk'')]"

definition w_tokenomics :: "DToken \<times> Tokenomics" where
  "w_tokenomics = tk_run (w_ledger, tk_constructor 1 7)
     [(5, RequestTokenomicsAnalysis 1000 ''0xAbc''), (1, CompleteTokenomicsAnalysis 5 0 82 ''healthy'')]"

definition w_social :: "DToken \<times> SocialAnalysis" where
  "w_social = sa_run (w_ledger, sa_constructor 1 7)
     [(5, RequestSocialAnalysis 1000 ''0xAbc''), (1, CompleteSocialAnalysis 5 0 82 ''positive'')]"

text \<open>The same three worlds after the request and before its completion.\<close>

definition w_requested :: "DToken \<times> ContractAnalysis" where
  "w_requested = ca_run (w_ledger, ca_constructor 1 7)
     [(5, RequestContractAnalysis 1000 ''0xAbc'')]"

definition w_tk_requested :: "DToken \<times> Tokenomics" where
  "w_tk_requested = tk_run (w_ledger, tk_constructor 1 7)
     [(5, RequestTokenomicsAnalysis 1000 ''0xAbc'')]"

definition w_sa_requested :: "DToken \<times> SocialAnalysis" where
  "w_sa_requested = sa_run (w_ledger, sa_constructor 1 7)
     [(5, RequestSocialAnalysis 1000 ''0xAbc'')]"

text \<open>
  The message log of the examples: account 1 deploys the ledger and authorizes the
  log at address 8, account 5 sends five times the price to the ledger, account 1
  deploys the log, and account 5 sends five messages to account 6 on chain 97476,
  the third of them to chain 1.
\<close>

definition w_universal :: "DToken \<times> Universal" where
  "w_universal =
     (dt_run (dt_constructor 1) [(1, AuthorizeContract 8 True), (5, Receive (5 * FEATURE_COST))],
      un_constructor 1 8)"

definition w_message :: "uint256 \<Rightarrow> string \<Rightarrow> bool \<Rightarrow> uint256 \<Rightarrow> Message" where
  "w_message t c x dst =
     \<lparr>m_sender = 5, m_recipient = 6, m_content = c, m_timestamp = t,
      m_payment = MESSAGE_COST, m_crossChain = x, m_destinationChain = dst\<rparr>"

definition w_messages :: "DToken \<times> Universal" where
  "w_messages = un_run w_universal
     [(5, SendMessage 1000 97476 6 ''a''), (5, SendMessage 1001 97476 6 ''b''),
      (5, SendCrossChainMessage 1002 97476 1 6 ''c''), (5, SendMessage 1003 97476 6 ''d''),
      (5, SendMessage 1004 97476 6 ''e'')]"

definition MAX_UINT256 :: uint256 where
  "MAX_UINT256 = 115792089237316195423570985008687907853269984665640564039457584007913129639935"

text \<open>
  The monitoring contract of the examples: account 1 deploys the ledger and
  Monitoring at address 9, account 5 sends twice the price to the ledger and
  subscribes twice to the token \<open>T\<close>.
\<close>

definition w_monitoring :: "DToken \<times> Monitoring" where
  "w_monitoring = mo_run
     (dt_run (dt_constructor 1) [(1, AuthorizeContract 9 True), (5, Receive (2 * FEATURE_COST))],
      mo_constructor 1 9)
     [(5, RequestMonitoring 1000 ''T'' 500), (5, RequestMonitoring 1001 ''T'' 300)]"

text \<open>
  The registry of the examples: account 1 deploys the ledger and DomainManagement
  at address 10, account 5 sends ten times the price to the ledger and tokenizes
  three domains. In \<open>w_renewed\<close> account 5 grants the right \<open>DNS\<close> on the first
  domain to account 6 for 50 seconds at time 100 and again for 50 seconds at time
  200; in \<open>w_shortened\<close> for ever at time 100 and again for 50 seconds at time 200.
\<close>

definition w_registry :: "DToken \<times> DomainManagement" where
  "w_registry = dm_run
     (dt_run (dt_constructor 1) [(1, AuthorizeContract 10 True), (5, Receive (10 * FEATURE_COST))],
      dm_constructor 1 10)
     [(5, TokenizeDomain 50 ''a.com''), (5, TokenizeDomain 60 ''b.com''),
      (5, TokenizeDomain 70 ''c.com'')]"

definition w_renewed :: "DToken \<times> DomainManagement" where
  "w_renewed = dm_run w_registry
     [(5, GrantDomainRight 100 ''a.com'' ''DNS'' 6 50),
      (5, GrantDomainRight 200 ''a.com'' ''DNS'' 6 50)]"

definition w_shortened :: "DToken \<times> DomainManagement" where
  "w_shortened = dm_run w_registry
     [(5, GrantDomainRight 100 ''a.com'' ''DNS'' 6 0),
      (5, GrantDomainRight 200 ''a.com'' ''DNS'' 6 50)]"

text \<open>
  The invariant of the registry's lists: a domain with a name is tokenized, and a
  name occurs in the list of a user once when the user owns the tokenized domain
  and not at all otherwise.
\<close>

definition dm_inv :: "DomainManagement \<Rightarrow> bool" where
  "dm_inv s =
     (\<forall>n. (d_name (domains s n) \<noteq> [] \<longrightarrow> d_isTokenized (domains s n)) \<and>
          (\<forall>u. count (mset (userDomains s u)) n =
                 (if d_isTokenized (domains s n) \<and> d_owner (domains s n) = u then 1 else 0)))"

section \<open>Properties of the ledger\<close>

lemma checked_add_Inr: "checked_add a b = Inr c \<Longrightarrow> c = a + b"
  by (simp add: checked_add_def split: if_splits)

lemma checked_sub_Inr: "checked_sub a b = Inr c \<Longrightarrow> c = a - b \<and> b \<le> a"
  by (simp add: checked_sub_def split: if_splits)

lemma payForFeature_Inr:
  "payForFeature s sender v = Inr s' \<Longrightarrow>
     v = FEATURE_COST \<and> userPayments s' = (userPayments s)(sender := userPayments s sender + FEATURE_COST)"
  by (auto simp: payForFeature_def dt_credit_value_def split: if_splits sum.splits dest: checked_add_Inr)

lemma useFeature_Inr:
  "useFeature s sender u = Inr s' \<Longrightarrow>
     authorizedContracts s sender \<and> FEATURE_COST \<le> userPayments s u \<and>
     userPayments s' = (userPayments s)(u := userPayments s u - FEATURE_COST) \<and>
     authorizedContracts s' = authorizedContracts s \<and> dt_owner s' = dt_owner s"
  by (auto simp: useFeature_def split: if_splits sum.splits dest: checked_sub_Inr)

lemma receive_Inr:
  "receive s sender v = Inr s' \<Longrightarrow>
     userPayments s' = (userPayments s)(sender := userPayments s sender + v)"
  by (auto simp: receive_def dt_credit_value_def split: sum.splits dest: checked_add_Inr)

lemma fallback_Inr:
  "fallback s sender v = Inr s' \<Longrightarrow>
     userPayments s' = (userPayments s)(sender := userPayments s sender + v)"
  by (auto simp: fallback_def dt_credit_value_def split: sum.splits dest: checked_add_Inr)

lemma withdrawETH_userPayments:
  "withdrawETH s sender a ok = Inr s' \<Longrightarrow> userPayments s' = userPayments s"
  by (auto simp: withdrawETH_def sendValue_def Let_def split: if_splits sum.splits)

lemma authorizeContract_Inr:
  "authorizeContract s sender c a = Inr s' \<Longrightarrow>
     sender = dt_owner s \<and> userPayments s' = userPayments s \<and> dt_owner s' = dt_owner s \<and>
     authorizedContracts s' = (authorizedContracts s)(c := a)"
  by (auto simp: authorizeContract_def split: if_splits)

lemma dt_transferOwnership_Inr:
  "dt_transferOwnership s sender n = Inr s' \<Longrightarrow>
     userPayments s' = userPayments s \<and> authorizedContracts s' = authorizedContracts s"
  by (auto simp: dt_transferOwnership_def split: if_splits)

lemma dt_renounceOwnership_Inr:
  "dt_renounceOwnership s sender = Inr s' \<Longrightarrow>
     userPayments s' = userPayments s \<and> authorizedContracts s' = authorizedContracts s"
  by (auto simp: dt_renounceOwnership_def split: if_splits)

lemma code_balance_change_all: "code_balance_change s sender c U"
proof (cases "dt_dispatch s sender c")
  case (Inl e)
  then show ?thesis by (simp add: code_balance_change_def dt_exec_def)
next
  case (Inr s')
  then have ex: "dt_exec s (sender, c) = s'" by (simp add: dt_exec_def)
  show ?thesis
  proof (cases c)
    case (AuthorizeContract a b)
    with Inr have "authorizeContract s sender a b = Inr s'" by simp
    from authorizeContract_Inr[OF this] ex show ?thesis
      by (auto simp: code_balance_change_def)
  next
    case (PayForFeature v)
    with Inr have "payForFeature s sender v = Inr s'" by simp
    from payForFeature_Inr[OF this] PayForFeature ex show ?thesis
      by (auto simp: code_balance_change_def)
  next
    case (UseFeature u)
    with Inr have "useFeature s sender u = Inr s'" by simp
    from useFeature_Inr[OF this] UseFeature ex show ?thesis
      by (auto simp: code_balance_change_def)
  next
    case (WithdrawETH a ok)
    with Inr have "withdrawETH s sender a ok = Inr s'" by simp
    from withdrawETH_userPayments[OF this] ex show ?thesis
      by (auto simp: code_balance_change_def)
  next
    case (Receive v)
    with Inr have "receive s sender v = Inr s'" by simp
    from receive_Inr[OF this] Receive ex show ?thesis
      by (auto simp: code_balance_change_def)
  next
    case (Fallback v)
    with Inr have "fallback s sender v = Inr s'" by simp
    from fallback_Inr[OF this] Fallback ex show ?thesis
      by (auto simp: code_balance_change_def)
  next
    case (TransferOwnership n)
    with Inr have "dt_transferOwnership s sender n = Inr s'" by simp
    from dt_transferOwnership_Inr[OF this] ex show ?thesis
      by (auto simp: code_balance_change_def)
  next
    case RenounceOwnership
    with Inr have "dt_renounceOwnership s sender = Inr s'" by simp
    from dt_renounceOwnership_Inr[OF this] ex show ?thesis
      by (auto simp: code_balance_change_def)
  qed
qed

lemma useFeature_insufficient:
  "authorizedContracts s C \<Longrightarrow> \<not> dt_entered s \<Longrightarrow> userPayments s U < FEATURE_COST \<Longrightarrow>
     useFeature s C U = Inl InsufficientPayment"
  by (simp add: useFeature_def)

text \<open>
  Claim C1, as stated, fails: on a fresh ledger account 5 sends 1 wei with empty
  calldata; \<open>receive\<close> credits its balance by 1, which is neither the price nor a
  call of \<open>payForFeature\<close> or \<open>useFeature\<close>.
\<close>

theorem credit_changes_only_by_price_counterexample:
  "\<not> spec_balance_change (dt_constructor 1) 5 (Receive 1) 5"
  by (simp add: spec_balance_change_def dt_exec_def receive_def checked_add_def
      dt_constructor_def dt_credit_value_def FEATURE_COST_def Let_def)

lemmas dt_eval = dt_run_def dt_exec_def authorizeContract_def payForFeature_def useFeature_def
  receive_def fallback_def withdrawETH_def sendValue_def dt_transferOwnership_def
  dt_renounceOwnership_def checked_add_def checked_sub_def dt_constructor_def
  dt_credit_value_def FEATURE_COST_def hasFeaturePayment_def

text \<open>
  Claim C1, amended. For every user \<open>U\<close>, a call to the ledger leaves the credit
  balance of \<open>U\<close> as it was, or adds the price to it (\<open>U\<close> called \<open>payForFeature\<close>
  with the price), or takes the price from it (\<open>useFeature(U)\<close> succeeded), or adds
  the value \<open>U\<close> sent in a direct transfer (\<open>receive\<close> or \<open>fallback\<close>). A successful
  \<open>payForFeature\<close> adds exactly the price and a successful \<open>useFeature\<close> takes
  exactly the price. A \<open>useFeature\<close> by an authorized caller for a user whose
  balance is below the price reverts with \<open>InsufficientPayment\<close> and leaves the
  ledger as it was.
\<close>

theorem ledger_credit_changes:
  "code_balance_change s sender c U
   \<and> (\<not> isl (payForFeature s U v) \<longrightarrow>
        userPayments (dt_exec s (U, PayForFeature v)) U = userPayments s U + FEATURE_COST)
   \<and> (\<not> isl (useFeature s C U) \<longrightarrow>
        userPayments (dt_exec s (C, UseFeature U)) U = userPayments s U - FEATURE_COST)
   \<and> (authorizedContracts s C \<and> \<not> dt_entered s \<and> userPayments s U < FEATURE_COST \<longrightarrow>
        useFeature s C U = Inl InsufficientPayment \<and> dt_exec s (C, UseFeature U) = s)"
proof (intro conjI impI)
  show "code_balance_change s sender c U" by (rule code_balance_change_all)
next
  assume "\<not> isl (payForFeature s U v)"
  then obtain s' where r: "payForFeature s U v = Inr s'" by (cases "payForFeature s U v") auto
  from payForFeature_Inr[OF r] r
  show "userPayments (dt_exec s (U, PayForFeature v)) U = userPayments s U + FEATURE_COST"
    by (simp add: dt_exec_def)
next
  assume "\<not> isl (useFeature s C U)"
  then obtain s' where r: "useFeature s C U = Inr s'" by (cases "useFeature s C U") auto
  from useFeature_Inr[OF r] r
  show "userPayments (dt_exec s (C, UseFeature U)) U = userPayments s U - FEATURE_COST"
    by (simp add: dt_exec_def)
next
  assume a: "authorizedContracts s C \<and> \<not> dt_entered s \<and> userPayments s U < FEATURE_COST"
  then show "useFeature s C U = Inl InsufficientPayment" by (simp add: useFeature_insufficient)
  then show "dt_exec s (C, UseFeature U) = s" by (simp add: dt_exec_def)
qed

theorem ledger_credit_changes_witness:
  "\<not> isl (payForFeature w_ledger 5 FEATURE_COST)
   \<and> userPayments (dt_exec w_ledger (5, PayForFeature FEATURE_COST)) 5 = 2 * FEATURE_COST
   \<and> \<not> isl (useFeature w_ledger 7 5)
   \<and> userPayments (dt_exec w_ledger (7, UseFeature 5)) 5 = 0
   \<and> authorizedContracts w_ledger 7 \<and> \<not> dt_entered w_ledger \<and> userPayments w_ledger 6 < FEATURE_COST
   \<and> useFeature w_ledger 7 6 = Inl InsufficientPayment
   \<and> dt_exec w_ledger (7, UseFeature 6) = w_ledger"
  using ledger_credit_changes [of w_ledger 5 "PayForFeature FEATURE_COST" 5 FEATURE_COST 7]
        ledger_credit_changes [of w_ledger 7 "UseFeature 6" 6 FEATURE_COST 7]
  by (simp add: w_ledger_def dt_eval)

lemma dt_dispatch_authorized:
  assumes "dt_dispatch s sender c = Inr s'" and "c \<noteq> AuthorizeContract C True"
    and "\<not> authorizedContracts s C"
  shows "\<not> authorizedContracts s' C"
proof (cases c)
  case (AuthorizeContract a b)
  with assms(1) have "authorizeContract s sender a b = Inr s'" by simp
  from authorizeContract_Inr[OF this] assms(2,3) AuthorizeContract show ?thesis by auto
next
  case (PayForFeature v)
  with assms show ?thesis
    by (auto simp: payForFeature_def dt_credit_value_def split: if_splits sum.splits)
next
  case (UseFeature u)
  with assms(1) have "useFeature s sender u = Inr s'" by simp
  from useFeature_Inr[OF this] assms(3) show ?thesis by simp
next
  case (WithdrawETH a ok)
  with assms show ?thesis
    by (auto simp: withdrawETH_def sendValue_def Let_def split: if_splits sum.splits)
next
  case (Receive v)
  with assms show ?thesis
    by (auto simp: receive_def dt_credit_value_def split: sum.splits)
next
  case (Fallback v)
  with assms show ?thesis
    by (auto simp: fallback_def dt_credit_value_def split: sum.splits)
next
  case (TransferOwnership n)
  with assms(1) have "dt_transferOwnership s sender n = Inr s'" by simp
  from dt_transferOwnership_Inr[OF this] assms(3) show ?thesis by simp
next
  case RenounceOwnership
  with assms(1) have "dt_renounceOwnership s sender = Inr s'" by simp
  from dt_renounceOwnership_Inr[OF this] assms(3) show ?thesis by simp
qed

lemma dt_exec_authorized:
  "\<not> authorizedContracts s C \<Longrightarrow> snd tx \<noteq> AuthorizeContract C True \<Longrightarrow>
     \<not> authorizedContracts (dt_exec s tx) C"
  by (cases "dt_dispatch s (fst tx) (snd tx)")
     (auto simp: dt_exec_def dest: dt_dispatch_authorized)

lemma dt_run_authorized:
  "\<not> authorizedContracts s C \<Longrightarrow> \<forall>tx \<in> set txs. snd tx \<noteq> AuthorizeContract C True \<Longrightarrow>
     \<not> authorizedContracts (dt_run s txs) C"
proof (induction txs arbitrary: s)
  case Nil
  then show ?case by (simp add: dt_run_def)
next
  case (Cons tx txs)
  from Cons.prems have "\<not> authorizedContracts (dt_exec s tx) C"
    by (simp add: dt_exec_authorized)
  from Cons.IH[OF this] Cons.prems(2) show ?case by (simp add: dt_run_def)
qed

text \<open>
  Claim C2. \<open>useFeature\<close> succeeds only for a caller \<open>C\<close> that is in
  \<open>authorizedContracts\<close>; for any other caller it reverts with
  \<open>UnauthorizedContract\<close>. Once the owner has called \<open>authorizeContract(C, false)\<close>,
  every \<open>useFeature\<close> by \<open>C\<close> reverts with \<open>UnauthorizedContract\<close>, whatever
  transactions the ledger runs in between, as long as none of them is
  \<open>authorizeContract(C, true)\<close>.
\<close>

theorem debit_only_by_authorized:
  "(\<not> isl (useFeature s C U) \<longrightarrow> authorizedContracts s C)
   \<and> (\<not> authorizedContracts s C \<longrightarrow> useFeature s C U = Inl UnauthorizedContract)
   \<and> ((\<forall>tx \<in> set txs. snd tx \<noteq> AuthorizeContract C True) \<longrightarrow>
        useFeature (dt_run (dt_exec s (dt_owner s, AuthorizeContract C False)) txs) C U
          = Inl UnauthorizedContract)"
proof (intro conjI impI)
  assume "\<not> isl (useFeature s C U)"
  then show "authorizedContracts s C"
    by (cases "authorizedContracts s C") (simp_all add: useFeature_def)
next
  assume "\<not> authorizedContracts s C"
  then show "useFeature s C U = Inl UnauthorizedContract" by (simp add: useFeature_def)
next
  assume a: "\<forall>tx \<in> set txs. snd tx \<noteq> AuthorizeContract C True"
  have "\<not> authorizedContracts (dt_exec s (dt_owner s, AuthorizeContract C False)) C"
    by (simp add: dt_exec_def authorizeContract_def)
  from dt_run_authorized[OF this a]
  show "useFeature (dt_run (dt_exec s (dt_owner s, AuthorizeContract C False)) txs) C U
          = Inl UnauthorizedContract"
    by (simp add: useFeature_def)
qed

theorem debit_only_by_authorized_witness:
  "\<not> isl (useFeature w_ledger 7 5) \<and> authorizedContracts w_ledger 7
   \<and> \<not> authorizedContracts w_ledger 8 \<and> useFeature w_ledger 8 5 = Inl UnauthorizedContract
   \<and> useFeature (dt_run (dt_exec w_ledger (1, AuthorizeContract 7 False))
          [(5, PayForFeature FEATURE_COST), (7, UseFeature 5), (1, AuthorizeContract 8 True)]) 7 5
        = Inl UnauthorizedContract"
  using debit_only_by_authorized [of w_ledger 7 5 "[]"]
        debit_only_by_authorized [of w_ledger 8 5 "[]"]
        debit_only_by_authorized [of w_ledger 7 5
          "[(5, PayForFeature FEATURE_COST), (7, UseFeature 5), (1, AuthorizeContract 8 True)]"]
  by (simp add: w_ledger_def dt_eval)

text \<open>
  Claim C9. Called by the owner with amount 0 while the ledger holds a nonzero
  balance, \<open>withdrawETH\<close> sends the whole balance to the owner (when the owner's
  account accepts the transfer) and leaves the ledger holding nothing. Called by the
  owner with an amount above the balance held, or with amount 0 while nothing is
  held, it reverts with \<open>InvalidAmount\<close>, and the ledger with its record of
  transfers is as it was.
\<close>

theorem withdraw_all_or_invalid:
  "(sender = dt_owner s \<and> \<not> dt_entered s \<and> dt_balance s \<noteq> 0 \<and> accepts \<longrightarrow>
      withdrawETH s sender 0 accepts =
        Inr (s\<lparr>dt_balance := 0,
               dt_sent := dt_sent s @ [(dt_owner s, dt_balance s)],
               dt_log := dt_log s @ [PaymentWithdrawn (dt_owner s) (dt_balance s)]\<rparr>))
   \<and> (sender = dt_owner s \<and> \<not> dt_entered s \<and>
        (dt_balance s < amount \<or> (amount = 0 \<and> dt_balance s = 0)) \<longrightarrow>
      withdrawETH s sender amount accepts = Inl InvalidAmount
      \<and> dt_exec s (sender, WithdrawETH amount accepts) = s)"
  by (auto simp: withdrawETH_def sendValue_def Let_def dt_exec_def)

theorem withdraw_all_or_invalid_witness:
  "(1::address) = dt_owner w_ledger \<and> \<not> dt_entered w_ledger \<and> dt_balance w_ledger \<noteq> 0
   \<and> dt_sent (dt_exec w_ledger (1, WithdrawETH 0 True)) = [(1, FEATURE_COST)]
   \<and> dt_balance (dt_exec w_ledger (1, WithdrawETH 0 True)) = 0
   \<and> dt_balance w_ledger < FEATURE_COST + 1
   \<and> withdrawETH w_ledger 1 (FEATURE_COST + 1) True = Inl InvalidAmount
   \<and> dt_balance (dt_constructor 1) = 0
   \<and> withdrawETH (dt_constructor 1) 1 0 True = Inl InvalidAmount"
  using withdraw_all_or_invalid [of 1 w_ledger True "FEATURE_COST + 1"]
        withdraw_all_or_invalid [of 1 "dt_constructor 1" True 0]
  by (simp add: w_ledger_def dt_eval)

text \<open>
  Claim C10. A transfer of \<open>v\<close> wei to the ledger that runs \<open>receive\<close> or
  \<open>fallback\<close> adds exactly \<open>v\<close> to the sender's credit balance, whatever \<open>v\<close> is
  (the credit is a \<open>uint256\<close>: the sum has to fit, and the checked addition reverts
  with \<open>Panic(0x11)\<close> where it does not). The same value sent to \<open>payForFeature\<close>
  reverts unless it is the price.
\<close>

theorem direct_transfer_credits_amount:
  "(unat (userPayments s sender) + unat v < 2 ^ 256 \<longrightarrow>
      receive s sender v =
        Inr (s\<lparr>dt_balance := dt_balance s + v,
               userPayments := (userPayments s)(sender := userPayments s sender + v),
               dt_log := dt_log s @ [DT_PaymentReceived sender v]\<rparr>)
      \<and> fallback s sender v = receive s sender v)
   \<and> (\<not> unat (userPayments s sender) + unat v < 2 ^ 256 \<longrightarrow>
      receive s sender v = Inl (Panic 17) \<and> fallback s sender v = Inl (Panic 17))
   \<and> (v \<noteq> FEATURE_COST \<longrightarrow> isl (payForFeature s sender v))"
  by (auto simp: receive_def fallback_def payForFeature_def checked_add_def dt_credit_value_def)

theorem direct_transfer_credits_amount_witness:
  "unat (userPayments w_ledger 5) + unat (3 :: uint256) < 2 ^ 256
   \<and> userPayments (dt_exec w_ledger (5, Receive 3)) 5 = FEATURE_COST + 3
   \<and> userPayments (dt_exec w_ledger (5, Fallback 3)) 5 = FEATURE_COST + 3
   \<and> (3 :: uint256) \<noteq> FEATURE_COST
   \<and> payForFeature w_ledger 5 3 = Inl InsufficientPayment"
  using direct_transfer_credits_amount [of w_ledger 5 3]
  by (simp add: w_ledger_def dt_eval)

section \<open>Properties of the request logs\<close>

lemma completeAnalysis_completed:
  assumes "unat idx < length (ca_userRequests s U)"
    and "ar_completed (ca_userRequests s U ! unat idx)"
  shows "isl (completeAnalysis s sender U idx score ana)"
    and "sender = ca_owner s \<Longrightarrow>
           completeAnalysis s sender U idx score ana = Inl (Error ''Analysis already completed'')"
  using assms by (simp_all add: completeAnalysis_def)

lemma completeAnalysis_keeps:
  assumes "completeAnalysis s sender u idx score ana = Inr s'"
    and "i < length (ca_userRequests s U)" and "ar_completed (ca_userRequests s U ! i)"
  shows "i < length (ca_userRequests s' U) \<and> ca_userRequests s' U ! i = ca_userRequests s U ! i"
proof (cases "u = U \<and> unat idx = i")
  case True
  with assms show ?thesis by (auto simp: completeAnalysis_def split: if_splits)
next
  case False
  with assms show ?thesis
    by (auto simp: completeAnalysis_def Let_def nth_list_update split: if_splits)
qed

lemma requestContractAnalysis_keeps:
  assumes "requestContractAnalysis d s sender now a = Inr (d', s')"
    and "i < length (ca_userRequests s U)"
  shows "i < length (ca_userRequests s' U) \<and> ca_userRequests s' U ! i = ca_userRequests s U ! i"
  using assms
  by (auto simp: requestContractAnalysis_def Let_def nth_append split: if_splits sum.splits)

lemma ca_dispatch_keeps:
  assumes "ca_dispatch (d, s) sender c = Inr (d', s')"
    and "i < length (ca_userRequests s U)" and "ar_completed (ca_userRequests s U ! i)"
  shows "i < length (ca_userRequests s' U) \<and> ca_userRequests s' U ! i = ca_userRequests s U ! i"
proof (cases c)
  case (CA_Ledger x)
  with assms show ?thesis by (auto split: sum.splits)
next
  case (RequestContractAnalysis now a)
  with assms(1) have "requestContractAnalysis d s sender now a = Inr (d', s')" by simp
  from requestContractAnalysis_keeps[OF this assms(2)] show ?thesis .
next
  case (CompleteAnalysis u idx score ana)
  with assms(1) have "completeAnalysis s sender u idx score ana = Inr s'"
    by (auto split: sum.splits)
  from completeAnalysis_keeps[OF this assms(2,3)] show ?thesis .
next
  case (CA_TransferOwnership n)
  with assms show ?thesis
    by (auto simp: ca_transferOwnership_def split: sum.splits if_splits)
next
  case CA_RenounceOwnership
  with assms show ?thesis
    by (auto simp: ca_renounceOwnership_def split: sum.splits if_splits)
qed

lemma ca_exec_keeps:
  assumes "i < length (ca_userRequests (snd w) U)" and "ar_completed (ca_userRequests (snd w) U ! i)"
  shows "i < length (ca_userRequests (snd (ca_exec w tx)) U) \<and>
         ca_userRequests (snd (ca_exec w tx)) U ! i = ca_userRequests (snd w) U ! i"
proof (cases "ca_dispatch w (fst tx) (snd tx)")
  case (Inl e)
  with assms show ?thesis by (simp add: ca_exec_def)
next
  case (Inr w')
  then have "ca_dispatch (fst w, snd w) (fst tx) (snd tx) = Inr (fst w', snd w')" by simp
  from ca_dispatch_keeps[OF this assms] Inr show ?thesis by (simp add: ca_exec_def)
qed

lemma ca_run_keeps:
  "i < length (ca_userRequests (snd w) U) \<Longrightarrow> ar_completed (ca_userRequests (snd w) U ! i) \<Longrightarrow>
     i < length (ca_userRequests (snd (ca_run w txs)) U) \<and>
     ca_userRequests (snd (ca_run w txs)) U ! i = ca_userRequests (snd w) U ! i"
proof (induction txs arbitrary: w)
  case Nil
  then show ?case by (simp add: ca_run_def)
next
  case (Cons tx txs)
  from ca_exec_keeps[OF Cons.prems, of tx]
  have a: "i < length (ca_userRequests (snd (ca_exec w tx)) U)"
    and b: "ca_userRequests (snd (ca_exec w tx)) U ! i = ca_userRequests (snd w) U ! i"
    by simp_all
  from b Cons.prems(2) have c: "ar_completed (ca_userRequests (snd (ca_exec w tx)) U ! i)" by simp
  from Cons.IH[OF a c] b show ?case by (simp add: ca_run_def)
qed

lemma completeTokenomicsAnalysis_completed:
  assumes "unat idx < length (tk_userRequests s U)"
    and "tr_completed (tk_userRequests s U ! unat idx)"
  shows "isl (completeTokenomicsAnalysis s sender U idx score ana)"
    and "sender = tk_owner s \<Longrightarrow>
           completeTokenomicsAnalysis s sender U idx score ana = Inl (Error ''Analysis already completed'')"
  using assms by (simp_all add: completeTokenomicsAnalysis_def)

lemma completeTokenomicsAnalysis_keeps:
  assumes "completeTokenomicsAnalysis s sender u idx score ana = Inr s'"
    and "i < length (tk_userRequests s U)" and "tr_completed (tk_userRequests s U ! i)"
  shows "i < length (tk_userRequests s' U) \<and> tk_userRequests s' U ! i = tk_userRequests s U ! i"
proof (cases "u = U \<and> unat idx = i")
  case True
  with assms show ?thesis by (auto simp: completeTokenomicsAnalysis_def split: if_splits)
next
  case False
  with assms show ?thesis
    by (auto simp: completeTokenomicsAnalysis_def Let_def nth_list_update split: if_splits)
qed

lemma requestTokenomicsAnalysis_keeps:
  assumes "requestTokenomicsAnalysis d s sender now a = Inr (d', s')"
    and "i < length (tk_userRequests s U)"
  shows "i < length (tk_userRequests s' U) \<and> tk_userRequests s' U ! i = tk_userRequests s U ! i"
  using assms
  by (auto simp: requestTokenomicsAnalysis_def Let_def nth_append split: if_splits sum.splits)

lemma tk_dispatch_keeps:
  assumes "tk_dispatch (d, s) sender c = Inr (d', s')"
    and "i < length (tk_userRequests s U)" and "tr_completed (tk_userRequests s U ! i)"
  shows "i < length (tk_userRequests s' U) \<and> tk_userRequests s' U ! i = tk_userRequests s U ! i"
proof (cases c)
  case (TK_Ledger x)
  with assms show ?thesis by (auto split: sum.splits)
next
  case (RequestTokenomicsAnalysis now a)
  with assms(1) have "requestTokenomicsAnalysis d s sender now a = Inr (d', s')" by simp
  from requestTokenomicsAnalysis_keeps[OF this assms(2)] show ?thesis .
next
  case (CompleteTokenomicsAnalysis u idx score ana)
  with assms(1) have "completeTokenomicsAnalysis s sender u idx score ana = Inr s'"
    by (auto split: sum.splits)
  from completeTokenomicsAnalysis_keeps[OF this assms(2,3)] show ?thesis .
next
  case (TK_TransferOwnership n)
  with assms show ?thesis
    by (auto simp: tk_transferOwnership_def split: sum.splits if_splits)
next
  case TK_RenounceOwnership
  with assms show ?thesis
    by (auto simp: tk_renounceOwnership_def split: sum.splits if_splits)
qed

lemma tk_exec_keeps:
  assumes "i < length (tk_userRequests (snd w) U)" and "tr_completed (tk_userRequests (snd w) U ! i)"
  shows "i < length (tk_userRequests (snd (tk_exec w tx)) U) \<and>
         tk_userRequests (snd (tk_exec w tx)) U ! i = tk_userRequests (snd w) U ! i"
proof (cases "tk_dispatch w (fst tx) (snd tx)")
  case (Inl e)
  with assms show ?thesis by (simp add: tk_exec_def)
next
  case (Inr w')
  then have "tk_dispatch (fst w, snd w) (fst tx) (snd tx) = Inr (fst w', snd w')" by simp
  from tk_dispatch_keeps[OF this assms] Inr show ?thesis by (simp add: tk_exec_def)
qed

lemma tk_run_keeps:
  "i < length (tk_userRequests (snd w) U) \<Longrightarrow> tr_completed (tk_userRequests (snd w) U ! i) \<Longrightarrow>
     i < length (tk_userRequests (snd (tk_run w txs)) U) \<and>
     tk_userRequests (snd (tk_run w txs)) U ! i = tk_userRequests (snd w) U ! i"
proof (induction txs arbitrary: w)
  case Nil
  then show ?case by (simp add: tk_run_def)
next
  case (Cons tx txs)
  from tk_exec_keeps[OF Cons.prems, of tx]
  have a: "i < length (tk_userRequests (snd (tk_exec w tx)) U)"
    and b: "tk_userRequests (snd (tk_exec w tx)) U ! i = tk_userRequests (snd w) U ! i"
    by simp_all
  from b Cons.prems(2) have c: "tr_completed (tk_userRequests (snd (tk_exec w tx)) U ! i)" by simp
  from Cons.IH[OF a c] b show ?case by (simp add: tk_run_def)
qed

lemma completeSocialAnalysis_completed:
  assumes "unat idx < length (sa_userRequests s U)"
    and "sr_completed (sa_userRequests s U ! unat idx)"
  shows "isl (completeSocialAnalysis s sender U idx score ana)"
    and "sender = sa_owner s \<Longrightarrow>
           completeSocialAnalysis s sender U idx score ana = Inl (Error ''Analysis already completed'')"
  using assms by (simp_all add: completeSocialAnalysis_def)

lemma completeSocialAnalysis_keeps:
  assumes "completeSocialAnalysis s sender u idx score ana = Inr s'"
    and "i < length (sa_userRequests s U)" and "sr_completed (sa_userRequests s U ! i)"
  shows "i < length (sa_userRequests s' U) \<and> sa_userRequests s' U ! i = sa_userRequests s U ! i"
proof (cases "u = U \<and> unat idx = i")
  case True
  with assms show ?thesis by (auto simp: completeSocialAnalysis_def split: if_splits)
next
  case False
  with assms show ?thesis
    by (auto simp: completeSocialAnalysis_def Let_def nth_list_update split: if_splits)
qed

lemma requestSocialAnalysis_keeps:
  assumes "requestSocialAnalysis d s sender now a = Inr (d', s')"
    and "i < length (sa_userRequests s U)"
  shows "i < length (sa_userRequests s' U) \<and> sa_userRequests s' U ! i = sa_userRequests s U ! i"
  using assms
  by (auto simp: requestSocialAnalysis_def Let_def nth_append split: if_splits sum.splits)

lemma sa_dispatch_keeps:
  assumes "sa_dispatch (d, s) sender c = Inr (d', s')"
    and "i < length (sa_userRequests s U)" and "sr_completed (sa_userRequests s U ! i)"
  shows "i < length (sa_userRequests s' U) \<and> sa_userRequests s' U ! i = sa_userRequests s U ! i"
proof (cases c)
  case (SA_Ledger x)
  with assms show ?thesis by (auto split: sum.splits)
next
  case (RequestSocialAnalysis now a)
  with assms(1) have "requestSocialAnalysis d s sender now a = Inr (d', s')" by simp
  from requestSocialAnalysis_keeps[OF this assms(2)] show ?thesis .
next
  case (CompleteSocialAnalysis u idx score ana)
  with assms(1) have "completeSocialAnalysis s sender u idx score ana = Inr s'"
    by (auto split: sum.splits)
  from completeSocialAnalysis_keeps[OF this assms(2,3)] show ?thesis .
next
  case (SA_TransferOwnership n)
  with assms show ?thesis
    by (auto simp: sa_transferOwnership_def split: sum.splits if_splits)
next
  case SA_RenounceOwnership
  with assms show ?thesis
    by (auto simp: sa_renounceOwnership_def split: sum.splits if_splits)
qed

lemma sa_exec_keeps:
  assumes "i < length (sa_userRequests (snd w) U)" and "sr_completed (sa_userRequests (snd w) U ! i)"
  shows "i < length (sa_userRequests (snd (sa_exec w tx)) U) \<and>
         sa_userRequests (snd (sa_exec w tx)) U ! i = sa_userRequests (snd w) U ! i"
proof (cases "sa_dispatch w (fst tx) (snd tx)")
  case (Inl e)
  with assms show ?thesis by (simp add: sa_exec_def)
next
  case (Inr w')
  then have "sa_dispatch (fst w, snd w) (fst tx) (snd tx) = Inr (fst w', snd w')" by simp
  from sa_dispatch_keeps[OF this assms] Inr show ?thesis by (simp add: sa_exec_def)
qed

lemma sa_run_keeps:
  "i < length (sa_userRequests (snd w) U) \<Longrightarrow> sr_completed (sa_userRequests (snd w) U ! i) \<Longrightarrow>
     i < length (sa_userRequests (snd (sa_run w txs)) U) \<and>
     sa_userRequests (snd (sa_run w txs)) U ! i = sa_userRequests (snd w) U ! i"
proof (induction txs arbitrary: w)
  case Nil
  then show ?case by (simp add: sa_run_def)
next
  case (Cons tx txs)
  from sa_exec_keeps[OF Cons.prems, of tx]
  have a: "i < length (sa_userRequests (snd (sa_exec w tx)) U)"
    and b: "sa_userRequests (snd (sa_exec w tx)) U ! i = sa_userRequests (snd w) U ! i"
    by simp_all
  from b Cons.prems(2) have c: "sr_completed (sa_userRequests (snd (sa_exec w tx)) U ! i)" by simp
  from Cons.IH[OF a c] b show ?case by (simp add: sa_run_def)
qed

lemma completeAnalysis_pending:
  assumes "unat idx < length (ca_userRequests s U)"
    and "\<not> ar_completed (ca_userRequests s U ! unat idx)"
  shows "completeAnalysis s (ca_owner s) U idx score ana =
     Inr (s\<lparr>ca_userRequests := (ca_userRequests s)(U := (ca_userRequests s U)[unat idx :=
                (ca_userRequests s U ! unat idx)
                  \<lparr>ar_completed := True, ar_riskScore := score, ar_analysis := ana\<rparr>]),
            ca_log := ca_log s @
              [ContractAnalysisCompleted U (ar_contractAddress (ca_userRequests s U ! unat idx))
                 score ana]\<rparr>)"
  using assms by (simp add: completeAnalysis_def Let_def)

lemma completeAnalysis_Inr:
  assumes "completeAnalysis s sender u idx score ana = Inr s'"
  shows "unat idx < length (ca_userRequests s u)"
    and "ca_userRequests s' = (ca_userRequests s)(u := (ca_userRequests s u)[unat idx :=
           (ca_userRequests s u ! unat idx)
             \<lparr>ar_completed := True, ar_riskScore := score, ar_analysis := ana\<rparr>])"
  using assms by (auto simp: completeAnalysis_def Let_def split: if_splits)

lemma ca_dispatch_changes:
  assumes "ca_dispatch (d, s) sender c = Inr (d', s')"
    and "i < length (ca_userRequests s U)"
  shows "i < length (ca_userRequests s' U)"
    and "ca_userRequests s' U ! i \<noteq> ca_userRequests s U ! i \<Longrightarrow>
           ar_completed (ca_userRequests s' U ! i)"
proof -
  have "i < length (ca_userRequests s' U) \<and>
        (ca_userRequests s' U ! i = ca_userRequests s U ! i \<or> ar_completed (ca_userRequests s' U ! i))"
  proof (cases c)
    case (CA_Ledger x)
    with assms show ?thesis by (auto split: sum.splits)
  next
    case (RequestContractAnalysis now a)
    with assms(1) have "requestContractAnalysis d s sender now a = Inr (d', s')" by simp
    from requestContractAnalysis_keeps[OF this assms(2)] show ?thesis by simp
  next
    case (CompleteAnalysis u idx score ana)
    with assms(1) have "completeAnalysis s sender u idx score ana = Inr s'"
      by (auto split: sum.splits)
    note r = completeAnalysis_Inr[OF this]
    show ?thesis
    proof (cases "u = U \<and> unat idx = i")
      case True
      with r assms(2) show ?thesis by simp
    next
      case False
      with r assms(2) show ?thesis by (auto simp: nth_list_update)
    qed
  next
    case (CA_TransferOwnership n)
    with assms show ?thesis
      by (auto simp: ca_transferOwnership_def split: sum.splits if_splits)
  next
    case CA_RenounceOwnership
    with assms show ?thesis
      by (auto simp: ca_renounceOwnership_def split: sum.splits if_splits)
  qed
  then show "i < length (ca_userRequests s' U)"
    and "ca_userRequests s' U ! i \<noteq> ca_userRequests s U ! i \<Longrightarrow>
           ar_completed (ca_userRequests s' U ! i)"
    by auto
qed

lemma ca_exec_changes:
  assumes "i < length (ca_userRequests (snd w) U)"
  shows "i < length (ca_userRequests (snd (ca_exec w tx)) U)"
    and "ca_userRequests (snd (ca_exec w tx)) U ! i \<noteq> ca_userRequests (snd w) U ! i \<Longrightarrow>
           ar_completed (ca_userRequests (snd (ca_exec w tx)) U ! i)"
proof -
  have "i < length (ca_userRequests (snd (ca_exec w tx)) U) \<and>
        (ca_userRequests (snd (ca_exec w tx)) U ! i = ca_userRequests (snd w) U ! i
         \<or> ar_completed (ca_userRequests (snd (ca_exec w tx)) U ! i))"
  proof (cases "ca_dispatch w (fst tx) (snd tx)")
    case (Inl e)
    with assms show ?thesis by (simp add: ca_exec_def)
  next
    case (Inr w')
    then have "ca_dispatch (fst w, snd w) (fst tx) (snd tx) = Inr (fst w', snd w')" by simp
    from ca_dispatch_changes[OF this assms] Inr show ?thesis by (auto simp: ca_exec_def)
  qed
  then show "i < length (ca_userRequests (snd (ca_exec w tx)) U)"
    and "ca_userRequests (snd (ca_exec w tx)) U ! i \<noteq> ca_userRequests (snd w) U ! i \<Longrightarrow>
           ar_completed (ca_userRequests (snd (ca_exec w tx)) U ! i)"
    by auto
qed

lemma ca_run_changes:
  "i < length (ca_userRequests (snd w) U) \<Longrightarrow>
     i < length (ca_userRequests (snd (ca_run w txs)) U) \<and>
     (ca_userRequests (snd (ca_run w txs)) U ! i \<noteq> ca_userRequests (snd w) U ! i \<longrightarrow>
        \<not> ar_completed (ca_userRequests (snd w) U ! i) \<and>
        ar_completed (ca_userRequests (snd (ca_run w txs)) U ! i))"
proof (induction txs arbitrary: w)
  case Nil
  then show ?case by (simp add: ca_run_def)
next
  case (Cons tx txs)
  let ?w1 = "ca_exec w tx"
  from ca_exec_changes[OF Cons.prems, of tx]
  have l1: "i < length (ca_userRequests (snd ?w1) U)"
    and c1: "ca_userRequests (snd ?w1) U ! i \<noteq> ca_userRequests (snd w) U ! i \<Longrightarrow>
           ar_completed (ca_userRequests (snd ?w1) U ! i)"
    by simp_all
  have r: "ca_run w (tx # txs) = ca_run ?w1 txs" by (simp add: ca_run_def)
  from Cons.IH[OF l1]
  have ih: "i < length (ca_userRequests (snd (ca_run ?w1 txs)) U)"
    and ih2: "ca_userRequests (snd (ca_run ?w1 txs)) U ! i \<noteq> ca_userRequests (snd ?w1) U ! i \<Longrightarrow>
        \<not> ar_completed (ca_userRequests (snd ?w1) U ! i) \<and>
        ar_completed (ca_userRequests (snd (ca_run ?w1 txs)) U ! i)"
    by simp_all
  show ?case
  proof (cases "ar_completed (ca_userRequests (snd w) U ! i)")
    case True
    from ca_run_keeps[OF Cons.prems True, of "tx # txs"] show ?thesis by simp
  next
    case False
    show ?thesis
    proof (cases "ca_userRequests (snd ?w1) U ! i = ca_userRequests (snd w) U ! i")
      case True
      with ih ih2 False r show ?thesis by auto
    next
      case ne: False
      from c1[OF ne] have "ar_completed (ca_userRequests (snd ?w1) U ! i)" .
      from ca_run_keeps[OF l1 this, of txs] this False r show ?thesis by simp
    qed
  qed
qed

lemma ca_run_append: "ca_run w (txs @ later) = ca_run (ca_run w txs) later"
  by (simp add: ca_run_def)

lemma completeTokenomicsAnalysis_pending:
  assumes "unat idx < length (tk_userRequests s U)"
    and "\<not> tr_completed (tk_userRequests s U ! unat idx)"
  shows "completeTokenomicsAnalysis s (tk_owner s) U idx score ana =
     Inr (s\<lparr>tk_userRequests := (tk_userRequests s)(U := (tk_userRequests s U)[unat idx :=
                (tk_userRequests s U ! unat idx)
                  \<lparr>tr_completed := True, tr_healthScore := score, tr_analysis := ana\<rparr>]),
            tk_log := tk_log s @
              [TokenomicsAnalysisCompleted U (tr_tokenAddress (tk_userRequests s U ! unat idx))
                 score ana]\<rparr>)"
  using assms by (simp add: completeTokenomicsAnalysis_def Let_def)

lemma completeTokenomicsAnalysis_Inr:
  assumes "completeTokenomicsAnalysis s sender u idx score ana = Inr s'"
  shows "unat idx < length (tk_userRequests s u)"
    and "tk_userRequests s' = (tk_userRequests s)(u := (tk_userRequests s u)[unat idx :=
           (tk_userRequests s u ! unat idx)
             \<lparr>tr_completed := True, tr_healthScore := score, tr_analysis := ana\<rparr>])"
  using assms by (auto simp: completeTokenomicsAnalysis_def Let_def split: if_splits)

lemma tk_dispatch_changes:
  assumes "tk_dispatch (d, s) sender c = Inr (d', s')"
    and "i < length (tk_userRequests s U)"
  shows "i < length (tk_userRequests s' U)"
    and "tk_userRequests s' U ! i \<noteq> tk_userRequests s U ! i \<Longrightarrow>
           tr_completed (tk_userRequests s' U ! i)"
proof -
  have "i < length (tk_userRequests s' U) \<and>
        (tk_userRequests s' U ! i = tk_userRequests s U ! i \<or> tr_completed (tk_userRequests s' U ! i))"
  proof (cases c)
    case (TK_Ledger x)
    with assms show ?thesis by (auto split: sum.splits)
  next
    case (RequestTokenomicsAnalysis now a)
    with assms(1) have "requestTokenomicsAnalysis d s sender now a = Inr (d', s')" by simp
    from requestTokenomicsAnalysis_keeps[OF this assms(2)] show ?thesis by simp
  next
    case (CompleteTokenomicsAnalysis u idx score ana)
    with assms(1) have "completeTokenomicsAnalysis s sender u idx score ana = Inr s'"
      by (auto split: sum.splits)
    note r = completeTokenomicsAnalysis_Inr[OF this]
    show ?thesis
    proof (cases "u = U \<and> unat idx = i")
      case True
      with r assms(2) show ?thesis by simp
    next
      case False
      with r assms(2) show ?thesis by (auto simp: nth_list_update)
    qed
  next
    case (TK_TransferOwnership n)
    with assms show ?thesis
      by (auto simp: tk_transferOwnership_def split: sum.splits if_splits)
  next
    case TK_RenounceOwnership
    with assms show ?thesis
      by (auto simp: tk_renounceOwnership_def split: sum.splits if_splits)
  qed
  then show "i < length (tk_userRequests s' U)"
    and "tk_userRequests s' U ! i \<noteq> tk_userRequests s U ! i \<Longrightarrow>
           tr_completed (tk_userRequests s' U ! i)"
    by auto
qed

lemma tk_exec_changes:
  assumes "i < length (tk_userRequests (snd w) U)"
  shows "i < length (tk_userRequests (snd (tk_exec w tx)) U)"
    and "tk_userRequests (snd (tk_exec w tx)) U ! i \<noteq> tk_userRequests (snd w) U ! i \<Longrightarrow>
           tr_completed (tk_userRequests (snd (tk_exec w tx)) U ! i)"
proof -
  have "i < length (tk_userRequests (snd (tk_exec w tx)) U) \<and>
        (tk_userRequests (snd (tk_exec w tx)) U ! i = tk_userRequests (snd w) U ! i
         \<or> tr_completed (tk_userRequests (snd (tk_exec w tx)) U ! i))"
  proof (cases "tk_dispatch w (fst tx) (snd tx)")
    case (Inl e)
    with assms show ?thesis by (simp add: tk_exec_def)
  next
    case (Inr w')
    then have "tk_dispatch (fst w, snd w) (fst tx) (snd tx) = Inr (fst w', snd w')" by simp
    from tk_dispatch_changes[OF this assms] Inr show ?thesis by (auto simp: tk_exec_def)
  qed
  then show "i < length (tk_userRequests (snd (tk_exec w tx)) U)"
    and "tk_userRequests (snd (tk_exec w tx)) U ! i \<noteq> tk_userRequests (snd w) U ! i \<Longrightarrow>
           tr_completed (tk_userRequests (snd (tk_exec w tx)) U ! i)"
    by auto
qed

lemma tk_run_changes:
  "i < length (tk_userRequests (snd w) U) \<Longrightarrow>
     i < length (tk_userRequests (snd (tk_run w txs)) U) \<and>
     (tk_userRequests (snd (tk_run w txs)) U ! i \<noteq> tk_userRequests (snd w) U ! i \<longrightarrow>
        \<not> tr_completed (tk_userRequests (snd w) U ! i) \<and>
        tr_completed (tk_userRequests (snd (tk_run w txs)) U ! i))"
proof (induction txs arbitrary: w)
  case Nil
  then show ?case by (simp add: tk_run_def)
next
  case (Cons tx txs)
  let ?w1 = "tk_exec w tx"
  from tk_exec_changes[OF Cons.prems, of tx]
  have l1: "i < length (tk_userRequests (snd ?w1) U)"
    and c1: "tk_userRequests (snd ?w1) U ! i \<noteq> tk_userRequests (snd w) U ! i \<Longrightarrow>
           tr_completed (tk_userRequests (snd ?w1) U ! i)"
    by simp_all
  have r: "tk_run w (tx # txs) = tk_run ?w1 txs" by (simp add: tk_run_def)
  from Cons.IH[OF l1]
  have ih: "i < length (tk_userRequests (snd (tk_run ?w1 txs)) U)"
    and ih2: "tk_userRequests (snd (tk_run ?w1 txs)) U ! i \<noteq> tk_userRequests (snd ?w1) U ! i \<Longrightarrow>
        \<not> tr_completed (tk_userRequests (snd ?w1) U ! i) \<and>
        tr_completed (tk_userRequests (snd (tk_run ?w1 txs)) U ! i)"
    by simp_all
  show ?case
  proof (cases "tr_completed (tk_userRequests (snd w) U ! i)")
    case True
    from tk_run_keeps[OF Cons.prems True, of "tx # txs"] show ?thesis by simp
  next
    case False
    show ?thesis
    proof (cases "tk_userRequests (snd ?w1) U ! i = tk_userRequests (snd w) U ! i")
      case True
      with ih ih2 False r show ?thesis by auto
    next
      case ne: False
      from c1[OF ne] have "tr_completed (tk_userRequests (snd ?w1) U ! i)" .
      from tk_run_keeps[OF l1 this, of txs] this False r show ?thesis by simp
    qed
  qed
qed

lemma tk_run_append: "tk_run w (txs @ later) = tk_run (tk_run w txs) later"
  by (simp add: tk_run_def)

lemma completeSocialAnalysis_pending:
  assumes "unat idx < length (sa_userRequests s U)"
    and "\<not> sr_completed (sa_userRequests s U ! unat idx)"
  shows "completeSocialAnalysis s (sa_owner s) U idx score ana =
     Inr (s\<lparr>sa_userRequests := (sa_userRequests s)(U := (sa_userRequests s U)[unat idx :=
                (sa_userRequests s U ! unat idx)
                  \<lparr>sr_completed := True, sr_sentimentScore := score, sr_analysis := ana\<rparr>]),
            sa_log := sa_log s @
              [SocialAnalysisCompleted U (sr_tokenAddress (sa_userRequests s U ! unat idx))
                 score ana]\<rparr>)"
  using assms by (simp add: completeSocialAnalysis_def Let_def)

lemma completeSocialAnalysis_Inr:
  assumes "completeSocialAnalysis s sender u idx score ana = Inr s'"
  shows "unat idx < length (sa_userRequests s u)"
    and "sa_userRequests s' = (sa_userRequests s)(u := (sa_userRequests s u)[unat idx :=
           (sa_userRequests s u ! unat idx)
             \<lparr>sr_completed := True, sr_sentimentScore := score, sr_analysis := ana\<rparr>])"
  using assms by (auto simp: completeSocialAnalysis_def Let_def split: if_splits)

lemma sa_dispatch_changes:
  assumes "sa_dispatch (d, s) sender c = Inr (d', s')"
    and "i < length (sa_userRequests s U)"
  shows "i < length (sa_userRequests s' U)"
    and "sa_userRequests s' U ! i \<noteq> sa_userRequests s U ! i \<Longrightarrow>
           sr_completed (sa_userRequests s' U ! i)"
proof -
  have "i < length (sa_userRequests s' U) \<and>
        (sa_userRequests s' U ! i = sa_userRequests s U ! i \<or> sr_completed (sa_userRequests s' U ! i))"
  proof (cases c)
    case (SA_Ledger x)
    with assms show ?thesis by (auto split: sum.splits)
  next
    case (RequestSocialAnalysis now a)
    with assms(1) have "requestSocialAnalysis d s sender now a = Inr (d', s')" by simp
    from requestSocialAnalysis_keeps[OF this assms(2)] show ?thesis by simp
  next
    case (CompleteSocialAnalysis u idx score ana)
    with assms(1) have "completeSocialAnalysis s sender u idx score ana = Inr s'"
      by (auto split: sum.splits)
    note r = completeSocialAnalysis_Inr[OF this]
    show ?thesis
    proof (cases "u = U \<and> unat idx = i")
      case True
      with r assms(2) show ?thesis by simp
    next
      case False
      with r assms(2) show ?thesis by (auto simp: nth_list_update)
    qed
  next
    case (SA_TransferOwnership n)
    with assms show ?thesis
      by (auto simp: sa_transferOwnership_def split: sum.splits if_splits)
  next
    case SA_RenounceOwnership
    with assms show ?thesis
      by (auto simp: sa_renounceOwnership_def split: sum.splits if_splits)
  qed
  then show "i < length (sa_userRequests s' U)"
    and "sa_userRequests s' U ! i \<noteq> sa_userRequests s U ! i \<Longrightarrow>
           sr_completed (sa_userRequests s' U ! i)"
    by auto
qed

lemma sa_exec_changes:
  assumes "i < length (sa_userRequests (snd w) U)"
  shows "i < length (sa_userRequests (snd (sa_exec w tx)) U)"
    and "sa_userRequests (snd (sa_exec w tx)) U ! i \<noteq> sa_userRequests (snd w) U ! i \<Longrightarrow>
           sr_completed (sa_userRequests (snd (sa_exec w tx)) U ! i)"
proof -
  have "i < length (sa_userRequests (snd (sa_exec w tx)) U) \<and>
        (sa_userRequests (snd (sa_exec w tx)) U ! i = sa_userRequests (snd w) U ! i
         \<or> sr_completed (sa_userRequests (snd (sa_exec w tx)) U ! i))"
  proof (cases "sa_dispatch w (fst tx) (snd tx)")
    case (Inl e)
    with assms show ?thesis by (simp add: sa_exec_def)
  next
    case (Inr w')
    then have "sa_dispatch (fst w, snd w) (fst tx) (snd tx) = Inr (fst w', snd w')" by simp
    from sa_dispatch_changes[OF this assms] Inr show ?thesis by (auto simp: sa_exec_def)
  qed
  then show "i < length (sa_userRequests (snd (sa_exec w tx)) U)"
    and "sa_userRequests (snd (sa_exec w tx)) U ! i \<noteq> sa_userRequests (snd w) U ! i \<Longrightarrow>
           sr_completed (sa_userRequests (snd (sa_exec w tx)) U ! i)"
    by auto
qed

lemma sa_run_changes:
  "i < length (sa_userRequests (snd w) U) \<Longrightarrow>
     i < length (sa_userRequests (snd (sa_run w txs)) U) \<and>
     (sa_userRequests (snd (sa_run w txs)) U ! i \<noteq> sa_userRequests (snd w) U ! i \<longrightarrow>
        \<not> sr_completed (sa_userRequests (snd w) U ! i) \<and>
        sr_completed (sa_userRequests (snd (sa_run w txs)) U ! i))"
proof (induction txs arbitrary: w)
  case Nil
  then show ?case by (simp add: sa_run_def)
next
  case (Cons tx txs)
  let ?w1 = "sa_exec w tx"
  from sa_exec_changes[OF Cons.prems, of tx]
  have l1: "i < length (sa_userRequests (snd ?w1) U)"
    and c1: "sa_userRequests (snd ?w1) U ! i \<noteq> sa_userRequests (snd w) U ! i \<Longrightarrow>
           sr_completed (sa_userRequests (snd ?w1) U ! i)"
    by simp_all
  have r: "sa_run w (tx # txs) = sa_run ?w1 txs" by (simp add: sa_run_def)
  from Cons.IH[OF l1]
  have ih: "i < length (sa_userRequests (snd (sa_run ?w1 txs)) U)"
    and ih2: "sa_userRequests (snd (sa_run ?w1 txs)) U ! i \<noteq> sa_userRequests (snd ?w1) U ! i \<Longrightarrow>
        \<not> sr_completed (sa_userRequests (snd ?w1) U ! i) \<and>
        sr_completed (sa_userRequests (snd (sa_run ?w1 txs)) U ! i)"
    by simp_all
  show ?case
  proof (cases "sr_completed (sa_userRequests (snd w) U ! i)")
    case True
    from sa_run_keeps[OF Cons.prems True, of "tx # txs"] show ?thesis by simp
  next
    case False
    show ?thesis
    proof (cases "sa_userRequests (snd ?w1) U ! i = sa_userRequests (snd w) U ! i")
      case True
      with ih ih2 False r show ?thesis by auto
    next
      case ne: False
      from c1[OF ne] have "sr_completed (sa_userRequests (snd ?w1) U ! i)" .
      from sa_run_keeps[OF l1 this, of txs] this False r show ?thesis by simp
    qed
  qed
qed

lemma sa_run_append: "sa_run w (txs @ later) = sa_run (sa_run w txs) later"
  by (simp add: sa_run_def)

text \<open>
  Claim C3. In ContractAnalysis, Tokenomics and SocialAnalysis alike: when the
  request of user \<open>U\<close> at index \<open>i\<close> is completed, a further completion of
  \<open>(U, i)\<close> reverts, for the owner with \<open>Analysis already completed\<close> (any other
  caller is turned away by \<open>onlyOwner\<close> before), and whatever transactions run
  afterwards on the ledger and the contract, the stored record, with its score and
  analysis text, stays as it is. A completion by the owner of a request that is not
  completed succeeds, sets \<open>completed\<close> and stores the score and the text in that
  record and in no other. And whenever a sequence of transactions has changed a
  stored record, the record was not completed before and is completed after, and
  no transaction that follows changes it again. So the score and the text are
  written at most once after the request was created.
\<close>

theorem completed_request_is_final:
  "(unat idx < length (ca_userRequests s U) \<and> ar_completed (ca_userRequests s U ! unat idx) \<longrightarrow>
      isl (completeAnalysis s sender U idx score ana)
      \<and> completeAnalysis s (ca_owner s) U idx score ana = Inl (Error ''Analysis already completed'')
      \<and> unat idx < length (ca_userRequests (snd (ca_run (d, s) txs)) U)
      \<and> ca_userRequests (snd (ca_run (d, s) txs)) U ! unat idx = ca_userRequests s U ! unat idx)
   \<and> (unat idx < length (tk_userRequests t U) \<and> tr_completed (tk_userRequests t U ! unat idx) \<longrightarrow>
      isl (completeTokenomicsAnalysis t sender U idx score ana)
      \<and> completeTokenomicsAnalysis t (tk_owner t) U idx score ana
          = Inl (Error ''Analysis already completed'')
      \<and> unat idx < length (tk_userRequests (snd (tk_run (d, t) txsT)) U)
      \<and> tk_userRequests (snd (tk_run (d, t) txsT)) U ! unat idx = tk_userRequests t U ! unat idx)
   \<and> (unat idx < length (sa_userRequests v U) \<and> sr_completed (sa_userRequests v U ! unat idx) \<longrightarrow>
      isl (completeSocialAnalysis v sender U idx score ana)
      \<and> completeSocialAnalysis v (sa_owner v) U idx score ana
          = Inl (Error ''Analysis already completed'')
      \<and> unat idx < length (sa_userRequests (snd (sa_run (d, v) txsS)) U)
      \<and> sa_userRequests (snd (sa_run (d, v) txsS)) U ! unat idx = sa_userRequests v U ! unat idx)
   \<and> (unat idx < length (ca_userRequests s U) \<and> \<not> ar_completed (ca_userRequests s U ! unat idx) \<longrightarrow>
      completeAnalysis s (ca_owner s) U idx score ana =
        Inr (s\<lparr>ca_userRequests := (ca_userRequests s)(U := (ca_userRequests s U)[unat idx :=
                 (ca_userRequests s U ! unat idx)
                   \<lparr>ar_completed := True, ar_riskScore := score, ar_analysis := ana\<rparr>]),
               ca_log := ca_log s @
                 [ContractAnalysisCompleted U (ar_contractAddress (ca_userRequests s U ! unat idx)) score ana]\<rparr>))
   \<and> (i < length (ca_userRequests s U)
        \<and> ca_userRequests (snd (ca_run (d, s) txs)) U ! i \<noteq> ca_userRequests s U ! i \<longrightarrow>
      \<not> ar_completed (ca_userRequests s U ! i)
      \<and> ar_completed (ca_userRequests (snd (ca_run (d, s) txs)) U ! i)
      \<and> ca_userRequests (snd (ca_run (d, s) (txs @ later))) U ! i
          = ca_userRequests (snd (ca_run (d, s) txs)) U ! i)
   \<and> (unat idx < length (tk_userRequests t U) \<and> \<not> tr_completed (tk_userRequests t U ! unat idx) \<longrightarrow>
      completeTokenomicsAnalysis t (tk_owner t) U idx score ana =
        Inr (t\<lparr>tk_userRequests := (tk_userRequests t)(U := (tk_userRequests t U)[unat idx :=
                 (tk_userRequests t U ! unat idx)
                   \<lparr>tr_completed := True, tr_healthScore := score, tr_analysis := ana\<rparr>]),
               tk_log := tk_log t @
                 [TokenomicsAnalysisCompleted U (tr_tokenAddress (tk_userRequests t U ! unat idx)) score ana]\<rparr>))
   \<and> (i < length (tk_userRequests t U)
        \<and> tk_userRequests (snd (tk_run (d, t) txsT)) U ! i \<noteq> tk_userRequests t U ! i \<longrightarrow>
      \<not> tr_completed (tk_userRequests t U ! i)
      \<and> tr_completed (tk_userRequests (snd (tk_run (d, t) txsT)) U ! i)
      \<and> tk_userRequests (snd (tk_run (d, t) (txsT @ laterT))) U ! i
          = tk_userRequests (snd (tk_run (d, t) txsT)) U ! i)
   \<and> (unat idx < length (sa_userRequests v U) \<and> \<not> sr_completed (sa_userRequests v U ! unat idx) \<longrightarrow>
      completeSocialAnalysis v (sa_owner v) U idx score ana =
        Inr (v\<lparr>sa_userRequests := (sa_userRequests v)(U := (sa_userRequests v U)[unat idx :=
                 (sa_userRequests v U ! unat idx)
                   \<lparr>sr_completed := True, sr_sentimentScore := score, sr_analysis := ana\<rparr>]),
               sa_log := sa_log v @
                 [SocialAnalysisCompleted U (sr_tokenAddress (sa_userRequests v U ! unat idx)) score ana]\<rparr>))
   \<and> (i < length (sa_userRequests v U)
        \<and> sa_userRequests (snd (sa_run (d, v) txsS)) U ! i \<noteq> sa_userRequests v U ! i \<longrightarrow>
      \<not> sr_completed (sa_userRequests v U ! i)
      \<and> sr_completed (sa_userRequests (snd (sa_run (d, v) txsS)) U ! i)
      \<and> sa_userRequests (snd (sa_run (d, v) (txsS @ laterS))) U ! i
          = sa_userRequests (snd (sa_run (d, v) txsS)) U ! i)"
proof -
  have ca_final: "(unat idx < length (ca_userRequests s U) \<and> ar_completed (ca_userRequests s U ! unat idx) \<longrightarrow>
      isl (completeAnalysis s sender U idx score ana)
      \<and> completeAnalysis s (ca_owner s) U idx score ana
          = Inl (Error ''Analysis already completed'')
      \<and> unat idx < length (ca_userRequests (snd (ca_run (d, s) txs)) U)
      \<and> ca_userRequests (snd (ca_run (d, s) txs)) U ! unat idx = ca_userRequests s U ! unat idx)"
  proof (intro impI)
    assume "unat idx < length (ca_userRequests s U) \<and> ar_completed (ca_userRequests s U ! unat idx)"
    then have l: "unat idx < length (ca_userRequests s U)"
      and c: "ar_completed (ca_userRequests s U ! unat idx)" by simp_all
    from completeAnalysis_completed[OF l c, of sender score ana] completeAnalysis_completed(2)[OF l c, of "ca_owner s" score ana]
      ca_run_keeps[of "unat idx" "(d, s)" U txs] l c
    show "isl (completeAnalysis s sender U idx score ana)
      \<and> completeAnalysis s (ca_owner s) U idx score ana
          = Inl (Error ''Analysis already completed'')
      \<and> unat idx < length (ca_userRequests (snd (ca_run (d, s) txs)) U)
      \<and> ca_userRequests (snd (ca_run (d, s) txs)) U ! unat idx = ca_userRequests s U ! unat idx"
      by simp
  qed
  have ca_pending: "(unat idx < length (ca_userRequests s U) \<and> \<not> ar_completed (ca_userRequests s U ! unat idx) \<longrightarrow>
      completeAnalysis s (ca_owner s) U idx score ana =
        Inr (s\<lparr>ca_userRequests := (ca_userRequests s)(U := (ca_userRequests s U)[unat idx :=
                 (ca_userRequests s U ! unat idx)
                   \<lparr>ar_completed := True, ar_riskScore := score, ar_analysis := ana\<rparr>]),
               ca_log := ca_log s @
                 [ContractAnalysisCompleted U (ar_contractAddress (ca_userRequests s U ! unat idx)) score ana]\<rparr>))"
    using completeAnalysis_pending[of idx s U score ana] by blast
  have ca_once: "(i < length (ca_userRequests s U)
        \<and> ca_userRequests (snd (ca_run (d, s) txs)) U ! i \<noteq> ca_userRequests s U ! i \<longrightarrow>
      \<not> ar_completed (ca_userRequests s U ! i)
      \<and> ar_completed (ca_userRequests (snd (ca_run (d, s) txs)) U ! i)
      \<and> ca_userRequests (snd (ca_run (d, s) (txs @ later))) U ! i
          = ca_userRequests (snd (ca_run (d, s) txs)) U ! i)"
  proof (intro impI)
    assume a: "i < length (ca_userRequests s U)
        \<and> ca_userRequests (snd (ca_run (d, s) txs)) U ! i \<noteq> ca_userRequests s U ! i"
    then have l: "i < length (ca_userRequests (snd (d, s)) U)" by simp
    from ca_run_changes[OF l, of txs] a
    have l1: "i < length (ca_userRequests (snd (ca_run (d, s) txs)) U)"
      and n0: "\<not> ar_completed (ca_userRequests s U ! i)"
      and c1: "ar_completed (ca_userRequests (snd (ca_run (d, s) txs)) U ! i)"
      by simp_all
    from ca_run_keeps[OF l1 c1, of later] n0 c1
    show "\<not> ar_completed (ca_userRequests s U ! i)
      \<and> ar_completed (ca_userRequests (snd (ca_run (d, s) txs)) U ! i)
      \<and> ca_userRequests (snd (ca_run (d, s) (txs @ later))) U ! i
          = ca_userRequests (snd (ca_run (d, s) txs)) U ! i"
      by (simp add: ca_run_append)
  qed
  have tk_final: "(unat idx < length (tk_userRequests t U) \<and> tr_completed (tk_userRequests t U ! unat idx) \<longrightarrow>
      isl (completeTokenomicsAnalysis t sender U idx score ana)
      \<and> completeTokenomicsAnalysis t (tk_owner t) U idx score ana
          = Inl (Error ''Analysis already completed'')
      \<and> unat idx < length (tk_userRequests (snd (tk_run (d, t) txsT)) U)
      \<and> tk_userRequests (snd (tk_run (d, t) txsT)) U ! unat idx = tk_userRequests t U ! unat idx)"
  proof (intro impI)
    assume "unat idx < length (tk_userRequests t U) \<and> tr_completed (tk_userRequests t U ! unat idx)"
    then have l: "unat idx < length (tk_userRequests t U)"
      and c: "tr_completed (tk_userRequests t U ! unat idx)" by simp_all
    from completeTokenomicsAnalysis_completed[OF l c, of sender score ana] completeTokenomicsAnalysis_completed(2)[OF l c, of "tk_owner t" score ana]
      tk_run_keeps[of "unat idx" "(d, t)" U txsT] l c
    show "isl (completeTokenomicsAnalysis t sender U idx score ana)
      \<and> completeTokenomicsAnalysis t (tk_owner t) U idx score ana
          = Inl (Error ''Analysis already completed'')
      \<and> unat idx < length (tk_userRequests (snd (tk_run (d, t) txsT)) U)
      \<and> tk_userRequests (snd (tk_run (d, t) txsT)) U ! unat idx = tk_userRequests t U ! unat idx"
      by simp
  qed
  have tk_pending: "(unat idx < length (tk_userRequests t U) \<and> \<not> tr_completed (tk_userRequests t U ! unat idx) \<longrightarrow>
      completeTokenomicsAnalysis t (tk_owner t) U idx score ana =
        Inr (t\<lparr>tk_userRequests := (tk_userRequests t)(U := (tk_userRequests t U)[unat idx :=
                 (tk_userRequests t U ! unat idx)
                   \<lparr>tr_completed := True, tr_healthScore := score, tr_analysis := ana\<rparr>]),
               tk_log := tk_log t @
                 [TokenomicsAnalysisCompleted U (tr_tokenAddress (tk_userRequests t U ! unat idx)) score ana]\<rparr>))"
    using completeTokenomicsAnalysis_pending[of idx t U score ana] by blast
  have tk_once: "(i < length (tk_userRequests t U)
        \<and> tk_userRequests (snd (tk_run (d, t) txsT)) U ! i \<noteq> tk_userRequests t U ! i \<longrightarrow>
      \<not> tr_completed (tk_userRequests t U ! i)
      \<and> tr_completed (tk_userRequests (snd (tk_run (d, t) txsT)) U ! i)
      \<and> tk_userRequests (snd (tk_run (d, t) (txsT @ laterT))) U ! i
          = tk_userRequests (snd (tk_run (d, t) txsT)) U ! i)"
  proof (intro impI)
    assume a: "i < length (tk_userRequests t U)
        \<and> tk_userRequests (snd (tk_run (d, t) txsT)) U ! i \<noteq> tk_userRequests t U ! i"
    then have l: "i < length (tk_userRequests (snd (d, t)) U)" by simp
    from tk_run_changes[OF l, of txsT] a
    have l1: "i < length (tk_userRequests (snd (tk_run (d, t) txsT)) U)"
      and n0: "\<not> tr_completed (tk_userRequests t U ! i)"
      and c1: "tr_completed (tk_userRequests (snd (tk_run (d, t) txsT)) U ! i)"
      by simp_all
    from tk_run_keeps[OF l1 c1, of laterT] n0 c1
    show "\<not> tr_completed (tk_userRequests t U ! i)
      \<and> tr_completed (tk_userRequests (snd (tk_run (d, t) txsT)) U ! i)
      \<and> tk_userRequests (snd (tk_run (d, t) (txsT @ laterT))) U ! i
          = tk_userRequests (snd (tk_run (d, t) txsT)) U ! i"
      by (simp add: tk_run_append)
  qed
  have sa_final: "(unat idx < length (sa_userRequests v U) \<and> sr_completed (sa_userRequests v U ! unat idx) \<longrightarrow>
      isl (completeSocialAnalysis v sender U idx score ana)
      \<and> completeSocialAnalysis v (sa_owner v) U idx score ana
          = Inl (Error ''Analysis already completed'')
      \<and> unat idx < length (sa_userRequests (snd (sa_run (d, v) txsS)) U)
      \<and> sa_userRequests (snd (sa_run (d, v) txsS)) U ! unat idx = sa_userRequests v U ! unat idx)"
  proof (intro impI)
    assume "unat idx < length (sa_userRequests v U) \<and> sr_completed (sa_userRequests v U ! unat idx)"
    then have l: "unat idx < length (sa_userRequests v U)"
      and c: "sr_completed (sa_userRequests v U ! unat idx)" by simp_all
    from completeSocialAnalysis_completed[OF l c, of sender score ana] completeSocialAnalysis_completed(2)[OF l c, of "sa_owner v" score ana]
      sa_run_keeps[of "unat idx" "(d, v)" U txsS] l c
    show "isl (completeSocialAnalysis v sender U idx score ana)
      \<and> completeSocialAnalysis v (sa_owner v) U idx score ana
          = Inl (Error ''Analysis already completed'')
      \<and> unat idx < length (sa_userRequests (snd (sa_run (d, v) txsS)) U)
      \<and> sa_userRequests (snd (sa_run (d, v) txsS)) U ! unat idx = sa_userRequests v U ! unat idx"
      by simp
  qed
  have sa_pending: "(unat idx < length (sa_userRequests v U) \<and> \<not> sr_completed (sa_userRequests v U ! unat idx) \<longrightarrow>
      completeSocialAnalysis v (sa_owner v) U idx score ana =
        Inr (v\<lparr>sa_userRequests := (sa_userRequests v)(U := (sa_userRequests v U)[unat idx :=
                 (sa_userRequests v U ! unat idx)
                   \<lparr>sr_completed := True, sr_sentimentScore := score, sr_analysis := ana\<rparr>]),
               sa_log := sa_log v @
                 [SocialAnalysisCompleted U (sr_tokenAddress (sa_userRequests v U ! unat idx)) score ana]\<rparr>))"
    using completeSocialAnalysis_pending[of idx v U score ana] by blast
  have sa_once: "(i < length (sa_userRequests v U)
        \<and> sa_userRequests (snd (sa_run (d, v) txsS)) U ! i \<noteq> sa_userRequests v U ! i \<longrightarrow>
      \<not> sr_completed (sa_userRequests v U ! i)
      \<and> sr_completed (sa_userRequests (snd (sa_run (d, v) txsS)) U ! i)
      \<and> sa_userRequests (snd (sa_run (d, v) (txsS @ laterS))) U ! i
          = sa_userRequests (snd (sa_run (d, v) txsS)) U ! i)"
  proof (intro impI)
    assume a: "i < length (sa_userRequests v U)
        \<and> sa_userRequests (snd (sa_run (d, v) txsS)) U ! i \<noteq> sa_userRequests v U ! i"
    then have l: "i < length (sa_userRequests (snd (d, v)) U)" by simp
    from sa_run_changes[OF l, of txsS] a
    have l1: "i < length (sa_userRequests (snd (sa_run (d, v) txsS)) U)"
      and n0: "\<not> sr_completed (sa_userRequests v U ! i)"
      and c1: "sr_completed (sa_userRequests (snd (sa_run (d, v) txsS)) U ! i)"
      by simp_all
    from sa_run_keeps[OF l1 c1, of laterS] n0 c1
    show "\<not> sr_completed (sa_userRequests v U ! i)
      \<and> sr_completed (sa_userRequests (snd (sa_run (d, v) txsS)) U ! i)
      \<and> sa_userRequests (snd (sa_run (d, v) (txsS @ laterS))) U ! i
          = sa_userRequests (snd (sa_run (d, v) txsS)) U ! i"
      by (simp add: sa_run_append)
  qed
  from ca_final tk_final sa_final ca_pending ca_once tk_pending tk_once sa_pending sa_once
  show ?thesis by (intro conjI)
qed

lemmas ca_eval = w_analysis_def w_tokenomics_def w_social_def w_requested_def w_tk_requested_def
  w_sa_requested_def w_ledger_def ca_run_def ca_exec_def
  ca_constructor_def requestContractAnalysis_def completeAnalysis_def ANALYSIS_COST_def
  tk_run_def tk_exec_def tk_constructor_def requestTokenomicsAnalysis_def
  completeTokenomicsAnalysis_def sa_run_def sa_exec_def sa_constructor_def
  requestSocialAnalysis_def completeSocialAnalysis_def Let_def

lemma w_analysis_state:
  "ca_userRequests (snd w_analysis) 5 =
     [\<lparr>ar_user = 5, ar_contractAddress = ''0xAbc'', ar_payment = ANALYSIS_COST,
       ar_completed = True, ar_riskScore = 82, ar_analysis = ''low risk'', ar_timestamp = 1000\<rparr>]"
  "ca_owner (snd w_analysis) = 1"
  "userPayments (fst w_analysis) 5 = 0"
  by (simp_all add: ca_eval dt_eval)

lemma w_tokenomics_state:
  "tk_userRequests (snd w_tokenomics) 5 =
     [\<lparr>tr_user = 5, tr_tokenAddress = ''0xAbc'', tr_payment = ANALYSIS_COST,
       tr_completed = True, tr_healthScore = 82, tr_analysis = ''healthy'', tr_timestamp = 1000\<rparr>]"
  "tk_owner (snd w_tokenomics) = 1"
  by (simp_all add: ca_eval dt_eval)

lemma w_social_state:
  "sa_userRequests (snd w_social) 5 =
     [\<lparr>sr_user = 5, sr_tokenAddress = ''0xAbc'', sr_payment = ANALYSIS_COST,
       sr_completed = True, sr_sentimentScore = 82, sr_analysis = ''positive'', sr_timestamp = 1000\<rparr>]"
  "sa_owner (snd w_social) = 1"
  by (simp_all add: ca_eval dt_eval)

lemma w_requested_state:
  "ca_userRequests (snd w_requested) 5 =
     [\<lparr>ar_user = 5, ar_contractAddress = ''0xAbc'', ar_payment = ANALYSIS_COST,
       ar_completed = False, ar_riskScore = 0, ar_analysis = [], ar_timestamp = 1000\<rparr>]"
  "ca_owner (snd w_requested) = 1"
  "ca_run w_requested [(1, CompleteAnalysis 5 0 82 ''low risk'')] = w_analysis"
  by (simp_all add: ca_eval dt_eval)

lemma w_tk_requested_state:
  "tk_userRequests (snd w_tk_requested) 5 =
     [\<lparr>tr_user = 5, tr_tokenAddress = ''0xAbc'', tr_payment = ANALYSIS_COST,
       tr_completed = False, tr_healthScore = 0, tr_analysis = [], tr_timestamp = 1000\<rparr>]"
  "tk_owner (snd w_tk_requested) = 1"
  "tk_run w_tk_requested [(1, CompleteTokenomicsAnalysis 5 0 82 ''healthy'')] = w_tokenomics"
  by (simp_all add: ca_eval dt_eval)

lemma w_sa_requested_state:
  "sa_userRequests (snd w_sa_requested) 5 =
     [\<lparr>sr_user = 5, sr_tokenAddress = ''0xAbc'', sr_payment = ANALYSIS_COST,
       sr_completed = False, sr_sentimentScore = 0, sr_analysis = [], sr_timestamp = 1000\<rparr>]"
  "sa_owner (snd w_sa_requested) = 1"
  "sa_run w_sa_requested [(1, CompleteSocialAnalysis 5 0 82 ''positive'')] = w_social"
  by (simp_all add: ca_eval dt_eval)

theorem completed_request_is_final_witness:
  "unat (0 :: uint256) < length (ca_userRequests (snd w_analysis) 5)
   \<and> ar_completed (ca_userRequests (snd w_analysis) 5 ! unat (0 :: uint256))
   \<and> userPayments (fst w_analysis) 5 = 0
   \<and> completeAnalysis (snd w_analysis) 1 5 0 50 ''x'' = Inl (Error ''Analysis already completed'')
   \<and> ar_riskScore (ca_userRequests (snd (ca_run w_analysis
          [(1, CompleteAnalysis 5 0 50 ''x''), (5, CA_Ledger (PayForFeature FEATURE_COST)),
           (5, RequestContractAnalysis 2000 ''0xDef'')])) 5 ! 0) = 82
   \<and> ar_analysis (ca_userRequests (snd (ca_run w_analysis
          [(1, CompleteAnalysis 5 0 50 ''x''), (5, CA_Ledger (PayForFeature FEATURE_COST)),
           (5, RequestContractAnalysis 2000 ''0xDef'')])) 5 ! 0) = ''low risk''
   \<and> unat (0 :: uint256) < length (tk_userRequests (snd w_tokenomics) 5)
   \<and> tr_completed (tk_userRequests (snd w_tokenomics) 5 ! unat (0 :: uint256))
   \<and> completeTokenomicsAnalysis (snd w_tokenomics) 1 5 0 50 ''x''
        = Inl (Error ''Analysis already completed'')
   \<and> tr_healthScore (tk_userRequests (snd (tk_run w_tokenomics
          [(1, CompleteTokenomicsAnalysis 5 0 50 ''x'')])) 5 ! 0) = 82
   \<and> unat (0 :: uint256) < length (sa_userRequests (snd w_social) 5)
   \<and> sr_completed (sa_userRequests (snd w_social) 5 ! unat (0 :: uint256))
   \<and> completeSocialAnalysis (snd w_social) 1 5 0 50 ''x''
        = Inl (Error ''Analysis already completed'')
   \<and> sr_sentimentScore (sa_userRequests (snd (sa_run w_social
          [(1, CompleteSocialAnalysis 5 0 50 ''x'')])) 5 ! 0) = 82
   \<and> unat (0 :: uint256) < length (ca_userRequests (snd w_requested) 5)
   \<and> ar_completed (ca_userRequests (snd w_requested) 5 ! unat (0 :: uint256)) = False
   \<and> isl (completeAnalysis (snd w_requested) 1 5 0 82 ''low risk'') = False
   \<and> map ar_completed (ca_userRequests
          (projr (completeAnalysis (snd w_requested) 1 5 0 82 ''low risk'')) 5) = [True]
   \<and> map ar_riskScore (ca_userRequests
          (projr (completeAnalysis (snd w_requested) 1 5 0 82 ''low risk'')) 5) = [82]
   \<and> map ar_analysis (ca_userRequests
          (projr (completeAnalysis (snd w_requested) 1 5 0 82 ''low risk'')) 5) = [''low risk'']
   \<and> ca_userRequests (snd (ca_run w_requested [(1, CompleteAnalysis 5 0 82 ''low risk'')])) 5 ! 0
        \<noteq> ca_userRequests (snd w_requested) 5 ! 0
   \<and> ar_riskScore (ca_userRequests (snd (ca_run w_requested
          [(1, CompleteAnalysis 5 0 82 ''low risk''), (1, CompleteAnalysis 5 0 50 ''x'')])) 5 ! 0) = 82
   \<and> map tr_healthScore (tk_userRequests
          (projr (completeTokenomicsAnalysis (snd w_tk_requested) 1 5 0 82 ''healthy'')) 5) = [82]
   \<and> map tr_completed (tk_userRequests
          (projr (completeTokenomicsAnalysis (snd w_tk_requested) 1 5 0 82 ''healthy'')) 5) = [True]
   \<and> tk_userRequests (snd (tk_run w_tk_requested
          [(1, CompleteTokenomicsAnalysis 5 0 82 ''healthy'')])) 5 ! 0
        \<noteq> tk_userRequests (snd w_tk_requested) 5 ! 0
   \<and> tr_healthScore (tk_userRequests (snd (tk_run w_tk_requested
          [(1, CompleteTokenomicsAnalysis 5 0 82 ''healthy''),
           (1, CompleteTokenomicsAnalysis 5 0 50 ''x'')])) 5 ! 0) = 82
   \<and> map sr_sentimentScore (sa_userRequests
          (projr (completeSocialAnalysis (snd w_sa_requested) 1 5 0 82 ''positive'')) 5) = [82]
   \<and> map sr_completed (sa_userRequests
          (projr (completeSocialAnalysis (snd w_sa_requested) 1 5 0 82 ''positive'')) 5) = [True]
   \<and> sa_userRequests (snd (sa_run w_sa_requested
          [(1, CompleteSocialAnalysis 5 0 82 ''positive'')])) 5 ! 0
        \<noteq> sa_userRequests (snd w_sa_requested) 5 ! 0
   \<and> sr_sentimentScore (sa_userRequests (snd (sa_run w_sa_requested
          [(1, CompleteSocialAnalysis 5 0 82 ''positive''),
           (1, CompleteSocialAnalysis 5 0 50 ''x'')])) 5 ! 0) = 82"
proof -
  have ca_h1: "unat (0 :: uint256) < length (ca_userRequests (snd w_analysis) 5)
      \<and> ar_completed (ca_userRequests (snd w_analysis) 5 ! unat (0 :: uint256))"
    by (simp add: w_analysis_state)
  note ca_f = completed_request_is_final [where idx = 0 and s = "snd w_analysis" and U = 5
      and sender = 1 and score = 50 and ana = "''x''" and d = "fst w_analysis"
      and txs = "[(1, CompleteAnalysis 5 0 50 ''x''), (5, CA_Ledger (PayForFeature FEATURE_COST)),
            (5, RequestContractAnalysis 2000 ''0xDef'')]",
      THEN conjunct1, THEN mp, OF ca_h1]
  have ca_h2: "unat (0 :: uint256) < length (ca_userRequests (snd w_requested) 5)
      \<and> \<not> ar_completed (ca_userRequests (snd w_requested) 5 ! unat (0 :: uint256))"
    by (simp add: w_requested_state)
  note ca_p = completed_request_is_final [where idx = 0 and s = "snd w_requested" and U = 5
      and score = 82 and ana = "''low risk''",
      THEN conjunct2, THEN conjunct2, THEN conjunct2, THEN conjunct1, THEN mp, OF ca_h2]
  have ca_h3: "0 < length (ca_userRequests (snd w_requested) 5)
      \<and> ca_userRequests (snd (ca_run (fst w_requested, snd w_requested) [(1, CompleteAnalysis 5 0 82 ''low risk'')])) 5 ! 0
          \<noteq> ca_userRequests (snd w_requested) 5 ! 0"
    by (simp add: w_requested_state w_analysis_state)
  note ca_o = completed_request_is_final [where s = "snd w_requested" and U = 5
      and d = "fst w_requested" and i = 0
      and txs = "[(1, CompleteAnalysis 5 0 82 ''low risk'')]"
      and later = "[(1, CompleteAnalysis 5 0 50 ''x'')]",
      THEN conjunct2, THEN conjunct2, THEN conjunct2, THEN conjunct2, THEN conjunct1, THEN mp, OF ca_h3]
  have tk_h1: "unat (0 :: uint256) < length (tk_userRequests (snd w_tokenomics) 5)
      \<and> tr_completed (tk_userRequests (snd w_tokenomics) 5 ! unat (0 :: uint256))"
    by (simp add: w_tokenomics_state)
  note tk_f = completed_request_is_final [where idx = 0 and t = "snd w_tokenomics" and U = 5
      and sender = 1 and score = 50 and ana = "''x''" and d = "fst w_tokenomics"
      and txsT = "[(1, CompleteTokenomicsAnalysis 5 0 50 ''x'')]",
      THEN conjunct2, THEN conjunct1, THEN mp, OF tk_h1]
  have tk_h2: "unat (0 :: uint256) < length (tk_userRequests (snd w_tk_requested) 5)
      \<and> \<not> tr_completed (tk_userRequests (snd w_tk_requested) 5 ! unat (0 :: uint256))"
    by (simp add: w_tk_requested_state)
  note tk_p = completed_request_is_final [where idx = 0 and t = "snd w_tk_requested" and U = 5
      and score = 82 and ana = "''healthy''",
      THEN conjunct2, THEN conjunct2, THEN conjunct2, THEN conjunct2, THEN conjunct2, THEN conjunct1, THEN mp, OF tk_h2]
  have tk_h3: "0 < length (tk_userRequests (snd w_tk_requested) 5)
      \<and> tk_userRequests (snd (tk_run (fst w_tk_requested, snd w_tk_requested) [(1, CompleteTokenomicsAnalysis 5 0 82 ''healthy'')])) 5 ! 0
          \<noteq> tk_userRequests (snd w_tk_requested) 5 ! 0"
    by (simp add: w_tk_requested_state w_tokenomics_state)
  note tk_o = completed_request_is_final [where t = "snd w_tk_requested" and U = 5
      and d = "fst w_tk_requested" and i = 0
      and txsT = "[(1, CompleteTokenomicsAnalysis 5 0 82 ''healthy'')]"
      and laterT = "[(1, CompleteTokenomicsAnalysis 5 0 50 ''x'')]",
      THEN conjunct2, THEN conjunct2, THEN conjunct2, THEN conjunct2, THEN conjunct2, THEN conjunct2, THEN conjunct1, THEN mp, OF tk_h3]
  have sa_h1: "unat (0 :: uint256) < length (sa_userRequests (snd w_social) 5)
      \<and> sr_completed (sa_userRequests (snd w_social) 5 ! unat (0 :: uint256))"
    by (simp add: w_social_state)
  note sa_f = completed_request_is_final [where idx = 0 and v = "snd w_social" and U = 5
      and sender = 1 and score = 50 and ana = "''x''" and d = "fst w_social"
      and txsS = "[(1, CompleteSocialAnalysis 5 0 50 ''x'')]",
      THEN conjunct2, THEN conjunct2, THEN conjunct1, THEN mp, OF sa_h1]
  have sa_h2: "unat (0 :: uint256) < length (sa_userRequests (snd w_sa_requested) 5)
      \<and> \<not> sr_completed (sa_userRequests (snd w_sa_requested) 5 ! unat (0 :: uint256))"
    by (simp add: w_sa_requested_state)
  note sa_p = completed_request_is_final [where idx = 0 and v = "snd w_sa_requested" and U = 5
      and score = 82 and ana = "''positive''",
      THEN conjunct2, THEN conjunct2, THEN conjunct2, THEN conjunct2, THEN conjunct2, THEN conjunct2, THEN conjunct2, THEN conjunct1, THEN mp, OF sa_h2]
  have sa_h3: "0 < length (sa_userRequests (snd w_sa_requested) 5)
      \<and> sa_userRequests (snd (sa_run (fst w_sa_requested, snd w_sa_requested) [(1, CompleteSocialAnalysis 5 0 82 ''positive'')])) 5 ! 0
          \<noteq> sa_userRequests (snd w_sa_requested) 5 ! 0"
    by (simp add: w_sa_requested_state w_social_state)
  note sa_o = completed_request_is_final [where v = "snd w_sa_requested" and U = 5
      and d = "fst w_sa_requested" and i = 0
      and txsS = "[(1, CompleteSocialAnalysis 5 0 82 ''positive'')]"
      and laterS = "[(1, CompleteSocialAnalysis 5 0 50 ''x'')]",
      THEN conjunct2, THEN conjunct2, THEN conjunct2, THEN conjunct2, THEN conjunct2, THEN conjunct2, THEN conjunct2, THEN conjunct2, THEN mp, OF sa_h3]
  from ca_h1 ca_f ca_h2 ca_p ca_h3 ca_o tk_h1 tk_f tk_h2 tk_p tk_h3 tk_o sa_h1 sa_f sa_h2 sa_p sa_h3 sa_o
  show ?thesis
    by (simp add: w_analysis_state w_tokenomics_state w_social_state
        w_requested_state w_tk_requested_state w_sa_requested_state)
qed

section \<open>Properties of the message log\<close>

lemma getAllMessages_loop_copies:
  "offset \<le> i \<Longrightarrow> i \<le> end \<Longrightarrow> end \<le> length msgs \<Longrightarrow> length result = end - offset \<Longrightarrow>
     getAllMessages_loop msgs offset end i result
       = Inr (take (i - offset) result @ take (end - i) (drop i msgs))"
proof (induction msgs offset "end" i result rule: getAllMessages_loop.induct)
  case (1 msgs offset e i result)
  show ?case
  proof (cases "i < e")
    case False
    with "1.prems" show ?thesis by (subst getAllMessages_loop.simps) simp
  next
    case True
    with "1.prems" have il: "i < length msgs" and rl: "i - offset < length result" by simp_all
    let ?r = "result[i - offset := msgs ! i]"
    from True "1.prems" il rl
    have ih: "getAllMessages_loop msgs offset e (i + 1) ?r
                = Inr (take (i + 1 - offset) ?r @ take (e - (i + 1)) (drop (i + 1) msgs))"
      by (intro "1.IH") simp_all
    from "1.prems" have s: "i + 1 - offset = Suc (i - offset)" by simp
    from rl have t: "take (Suc (i - offset)) ?r = take (i - offset) result @ [msgs ! i]"
      by (simp add: take_Suc_conv_app_nth)
    from True have u: "e - i = Suc (e - (i + 1))" by simp
    from il have v: "drop i msgs = msgs ! i # drop (i + 1) msgs"
      by (simp add: Cons_nth_drop_Suc)
    have "getAllMessages_loop msgs offset e i result
            = getAllMessages_loop msgs offset e (i + 1) ?r"
      using True il rl by (subst getAllMessages_loop.simps) simp
    with ih s t u v show ?thesis by simp
  qed
qed

lemma getAllMessages_slice:
  assumes "unat offset + unat limit < 2 ^ 256"
  shows "getAllMessages s offset limit
           = Inr (spec_listMessages (allMessages s) (unat offset) (unat limit))"
proof (cases "length (allMessages s) \<le> unat offset")
  case True
  then show ?thesis by (simp add: getAllMessages_def spec_listMessages_def)
next
  case False
  from assms have ca: "checked_add offset limit = Inr (offset + limit)"
    by (simp add: checked_add_def)
  from assms have un: "unat (offset + limit) = unat offset + unat limit"
    by (simp add: unat_word_ariths)
  let ?e = "if length (allMessages s) < unat (offset + limit)
            then length (allMessages s) else unat (offset + limit)"
  from un have e: "?e = min (unat offset + unat limit) (length (allMessages s))"
    by (simp add: min_def)
  have "getAllMessages_loop (allMessages s) (unat offset) ?e (unat offset)
          (replicate (?e - unat offset) zero_Message)
        = Inr (take (unat offset - unat offset) (replicate (?e - unat offset) zero_Message)
               @ take (?e - unat offset) (drop (unat offset) (allMessages s)))"
    using False un by (intro getAllMessages_loop_copies) simp_all
  then have "getAllMessages_loop (allMessages s) (unat offset) ?e (unat offset)
          (replicate (?e - unat offset) zero_Message)
        = Inr (spec_listMessages (allMessages s) (unat offset) (unat limit))"
    unfolding spec_listMessages_def e by simp
  moreover have "getAllMessages s offset limit
        = getAllMessages_loop (allMessages s) (unat offset) ?e (unat offset)
          (replicate (?e - unat offset) zero_Message)"
    using False ca by (simp add: getAllMessages_def Let_def)
  ultimately show ?thesis by simp
qed

lemma getAllMessages_beyond:
  "length (allMessages s) \<le> unat offset \<Longrightarrow> getAllMessages s offset limit = Inr []"
  by (simp add: getAllMessages_def)

lemma getAllMessages_overflow:
  "unat offset < length (allMessages s) \<Longrightarrow> \<not> unat offset + unat limit < 2 ^ 256 \<Longrightarrow>
     getAllMessages s offset limit = Inl (Panic 17)"
  by (simp add: getAllMessages_def checked_add_def)

text \<open>
  Claim C5, amended. For every offset and limit whose sum fits in a \<open>uint256\<close>,
  \<open>getAllMessages\<close> returns exactly the slice \<open>[offset, min (offset + limit) total)\<close>
  of the global list; for every offset at or beyond the total it returns the empty
  sequence, whatever the limit; for an offset below the total and a sum that does
  not fit, it reverts with \<open>Panic(0x11)\<close>. With five entries in the list,
  \<open>(3, 10)\<close> gives exactly the entries 3 and 4 and \<open>(10, 5)\<close> the empty sequence.
\<close>

theorem paginated_read_slice:
  "(unat offset + unat limit < 2 ^ 256 \<longrightarrow>
      getAllMessages s offset limit
        = Inr (spec_listMessages (allMessages s) (unat offset) (unat limit)))
   \<and> (length (allMessages s) \<le> unat offset \<longrightarrow> getAllMessages s offset limit = Inr [])
   \<and> (unat offset < length (allMessages s) \<and> \<not> unat offset + unat limit < 2 ^ 256 \<longrightarrow>
        getAllMessages s offset limit = Inl (Panic 17))
   \<and> (allMessages s = [m0, m1, m2, m3, m4] \<longrightarrow>
        getAllMessages s 3 10 = Inr [m3, m4] \<and> getAllMessages s 10 5 = Inr [])"
proof (intro conjI impI)
  assume "unat offset + unat limit < 2 ^ 256"
  then show "getAllMessages s offset limit
        = Inr (spec_listMessages (allMessages s) (unat offset) (unat limit))"
    by (rule getAllMessages_slice)
next
  assume "length (allMessages s) \<le> unat offset"
  then show "getAllMessages s offset limit = Inr []" by (rule getAllMessages_beyond)
next
  assume "unat offset < length (allMessages s) \<and> \<not> unat offset + unat limit < 2 ^ 256"
  then show "getAllMessages s offset limit = Inl (Panic 17)"
    by (simp add: getAllMessages_overflow)
next
  assume a: "allMessages s = [m0, m1, m2, m3, m4]"
  have "unat (3 :: uint256) + unat (10 :: uint256) < 2 ^ 256" by simp
  from getAllMessages_slice[OF this, of s] a
  show "getAllMessages s 3 10 = Inr [m3, m4]" by (simp add: spec_listMessages_def)
  from a show "getAllMessages s 10 5 = Inr []" by (simp add: getAllMessages_def)
qed

lemmas un_eval = w_universal_def w_messages_def un_run_def un_exec_def un_constructor_def
  sendMessage_def sendCrossChainMessage_def MESSAGE_COST_def Let_def

lemma w_messages_all:
  "allMessages (snd w_messages) =
     [w_message 1000 ''a'' False 97476, w_message 1001 ''b'' False 97476,
      w_message 1002 ''c'' True 1, w_message 1003 ''d'' False 97476,
      w_message 1004 ''e'' False 97476]"
  by (simp add: un_eval dt_eval w_message_def)

text \<open>
  Claim C5, as stated, fails: with five messages in the global list,
  \<open>getAllMessages(1, 2 ^ 256 - 1)\<close> does not return the slice from index 1 to the
  end of the list; the checked addition \<open>offset + limit\<close> reverts.
\<close>

theorem paginated_read_every_limit_counterexample:
  "getAllMessages (snd w_messages) 1 MAX_UINT256
     \<noteq> Inr (spec_listMessages (allMessages (snd w_messages)) (unat (1 :: uint256)) (unat MAX_UINT256))"
proof -
  have "getAllMessages (snd w_messages) 1 MAX_UINT256 = Inl (Panic 17)"
    by (intro getAllMessages_overflow) (simp_all add: w_messages_all MAX_UINT256_def)
  then show ?thesis by simp
qed

theorem paginated_read_slice_witness:
  "unat (1 :: uint256) + unat (2 :: uint256) < 2 ^ 256
   \<and> getAllMessages (snd w_messages) 1 2
       = Inr [w_message 1001 ''b'' False 97476, w_message 1002 ''c'' True 1]
   \<and> getAllMessages (snd w_messages) 3 10
       = Inr [w_message 1003 ''d'' False 97476, w_message 1004 ''e'' False 97476]
   \<and> length (allMessages (snd w_messages)) \<le> unat (10 :: uint256)
   \<and> getAllMessages (snd w_messages) 10 5 = Inr []
   \<and> unat (1 :: uint256) < length (allMessages (snd w_messages))
   \<and> \<not> unat (1 :: uint256) + unat MAX_UINT256 < 2 ^ 256
   \<and> getAllMessages (snd w_messages) 1 MAX_UINT256 = Inl (Panic 17)"
  using paginated_read_slice [of 1 2 "snd w_messages"
          "w_message 1000 ''a'' False 97476" "w_message 1001 ''b'' False 97476"
          "w_message 1002 ''c'' True 1" "w_message 1003 ''d'' False 97476"
          "w_message 1004 ''e'' False 97476"]
        paginated_read_slice [of 1 MAX_UINT256 "snd w_messages"]
  by (simp add: w_messages_all spec_listMessages_def MAX_UINT256_def)

lemma sendCrossChainMessage_Inr:
  assumes "sendCrossChainMessage d s sender now chainid destinationChain recipient message = Inr (d', s')"
  shows "destinationChain \<noteq> chainid"
    and "userMessages s' = (userMessages s)(sender := userMessages s sender @
           [\<lparr>m_sender = sender, m_recipient = recipient, m_content = message, m_timestamp = now,
             m_payment = MESSAGE_COST, m_crossChain = True, m_destinationChain = destinationChain\<rparr>])"
    and "allMessages s' = allMessages s @
           [\<lparr>m_sender = sender, m_recipient = recipient, m_content = message, m_timestamp = now,
             m_payment = MESSAGE_COST, m_crossChain = True, m_destinationChain = destinationChain\<rparr>]"
    and "receivedMessages s' = receivedMessages s"
  using assms
  by (auto simp: sendCrossChainMessage_def Let_def split: if_splits sum.splits)

lemma sendMessage_Inr:
  assumes "sendMessage d s sender now chainid recipient message = Inr (d', s')"
  shows "receivedMessages s' = (receivedMessages s)(recipient := receivedMessages s recipient @
           [\<lparr>m_sender = sender, m_recipient = recipient, m_content = message, m_timestamp = now,
             m_payment = MESSAGE_COST, m_crossChain = False, m_destinationChain = chainid\<rparr>])"
  using assms
  by (auto simp: sendMessage_def Let_def split: if_splits sum.splits)

lemma un_dispatch_received:
  assumes "un_dispatch (d, s) sender c = Inr (d', s')"
    and "receivedMessages s' \<noteq> receivedMessages s"
  shows "\<exists>now cid r m. c = SendMessage now cid r m"
proof (cases c)
  case (SendMessage now cid r m)
  then show ?thesis by simp
next
  case (SendCrossChainMessage now cid dst r m)
  with assms(1) have "sendCrossChainMessage d s sender now cid dst r m = Inr (d', s')" by simp
  from sendCrossChainMessage_Inr(4)[OF this] assms(2) show ?thesis by simp
next
  case (UN_TransferOwnership n)
  with assms show ?thesis
    by (auto simp: un_transferOwnership_def split: sum.splits if_splits)
next
  case UN_RenounceOwnership
  with assms show ?thesis
    by (auto simp: un_renounceOwnership_def split: sum.splits if_splits)
qed

text \<open>
  Claim C6. \<open>sendCrossChainMessage\<close> with the destination chain equal to
  \<open>block.chainid\<close> always reverts, and with \<open>InvalidRecipient\<close> once the checks
  before it pass (the sender has credit, the guard is free, the message is not
  empty). When it succeeds, the destination differs from the local chain, and the
  new record, tagged \<open>crossChain = true\<close>, is appended to the sender's sent list and
  to the global list, while every received list is as it was. A successful
  \<open>sendMessage\<close> appends its record, tagged \<open>crossChain = false\<close>, to the recipient's
  received list, and it is the only entry point of the contract that changes a
  received list.
\<close>

theorem cross_chain_send:
  "(destinationChain = chainid \<longrightarrow>
      isl (sendCrossChainMessage d s sender now chainid destinationChain recipient message)
      \<and> (hasFeaturePayment d sender \<and> \<not> un_entered s \<and> message \<noteq> [] \<longrightarrow>
           sendCrossChainMessage d s sender now chainid destinationChain recipient message
             = Inl InvalidRecipient))
   \<and> (sendCrossChainMessage d s sender now chainid destinationChain recipient message = Inr (d1, s1)
        \<longrightarrow>
      destinationChain \<noteq> chainid
      \<and> userMessages s1 = (userMessages s)(sender := userMessages s sender @
           [\<lparr>m_sender = sender, m_recipient = recipient, m_content = message, m_timestamp = now,
             m_payment = MESSAGE_COST, m_crossChain = True, m_destinationChain = destinationChain\<rparr>])
      \<and> allMessages s1 = allMessages s @
           [\<lparr>m_sender = sender, m_recipient = recipient, m_content = message, m_timestamp = now,
             m_payment = MESSAGE_COST, m_crossChain = True, m_destinationChain = destinationChain\<rparr>]
      \<and> receivedMessages s1 = receivedMessages s)
   \<and> (sendMessage d s sender now chainid recipient message = Inr (d2, s2) \<longrightarrow>
      receivedMessages s2 = (receivedMessages s)(recipient := receivedMessages s recipient @
           [\<lparr>m_sender = sender, m_recipient = recipient, m_content = message, m_timestamp = now,
             m_payment = MESSAGE_COST, m_crossChain = False, m_destinationChain = chainid\<rparr>]))
   \<and> (un_dispatch (d, s) sender c = Inr (d3, s3) \<and> receivedMessages s3 \<noteq> receivedMessages s
        \<longrightarrow> (\<exists>t cid r m. c = SendMessage t cid r m))"
proof (intro conjI impI)
  assume "destinationChain = chainid"
  then show "isl (sendCrossChainMessage d s sender now chainid destinationChain recipient message)"
    by (simp add: sendCrossChainMessage_def)
next
  assume "destinationChain = chainid"
    and "hasFeaturePayment d sender \<and> \<not> un_entered s \<and> message \<noteq> []"
  then show "sendCrossChainMessage d s sender now chainid destinationChain recipient message
             = Inl InvalidRecipient"
    by (simp add: sendCrossChainMessage_def)
next
  assume a: "sendCrossChainMessage d s sender now chainid destinationChain recipient message
               = Inr (d1, s1)"
  from sendCrossChainMessage_Inr[OF a]
  show "destinationChain \<noteq> chainid"
    and "userMessages s1 = (userMessages s)(sender := userMessages s sender @
           [\<lparr>m_sender = sender, m_recipient = recipient, m_content = message, m_timestamp = now,
             m_payment = MESSAGE_COST, m_crossChain = True, m_destinationChain = destinationChain\<rparr>])"
    and "allMessages s1 = allMessages s @
           [\<lparr>m_sender = sender, m_recipient = recipient, m_content = message, m_timestamp = now,
             m_payment = MESSAGE_COST, m_crossChain = True, m_destinationChain = destinationChain\<rparr>]"
    and "receivedMessages s1 = receivedMessages s"
    by simp_all
next
  assume "sendMessage d s sender now chainid recipient message = Inr (d2, s2)"
  from sendMessage_Inr[OF this]
  show "receivedMessages s2 = (receivedMessages s)(recipient := receivedMessages s recipient @
           [\<lparr>m_sender = sender, m_recipient = recipient, m_content = message, m_timestamp = now,
             m_payment = MESSAGE_COST, m_crossChain = False, m_destinationChain = chainid\<rparr>])" .
next
  assume "un_dispatch (d, s) sender c = Inr (d3, s3) \<and> receivedMessages s3 \<noteq> receivedMessages s"
  then show "\<exists>t cid r m. c = SendMessage t cid r m"
    using un_dispatch_received by blast
qed

lemma w_universal_cross:
  "sendCrossChainMessage (fst w_universal) (snd w_universal) 5 2000 97476 1 6 ''hi''
     = Inr (fst (un_exec w_universal (5, SendCrossChainMessage 2000 97476 1 6 ''hi'')),
            snd (un_exec w_universal (5, SendCrossChainMessage 2000 97476 1 6 ''hi'')))"
  by (simp add: un_eval dt_eval)

lemma w_universal_same:
  "sendMessage (fst w_universal) (snd w_universal) 5 2000 97476 6 ''hi''
     = Inr (fst (un_exec w_universal (5, SendMessage 2000 97476 6 ''hi'')),
            snd (un_exec w_universal (5, SendMessage 2000 97476 6 ''hi'')))"
  by (simp add: un_eval dt_eval)

lemma w_universal_facts:
  "hasFeaturePayment (fst w_universal) 5" "\<not> un_entered (snd w_universal)"
  "userMessages (snd w_universal) 5 = []" "receivedMessages (snd w_universal) 6 = []"
  "allMessages (snd w_universal) = []"
  by (simp_all add: un_eval dt_eval)

theorem cross_chain_send_witness:
  "hasFeaturePayment (fst w_universal) 5 \<and> \<not> un_entered (snd w_universal)
   \<and> sendCrossChainMessage (fst w_universal) (snd w_universal) 5 2000 97476 97476 6 ''hi''
        = Inl InvalidRecipient
   \<and> map m_crossChain (allMessages (snd (un_exec w_universal
          (5, SendCrossChainMessage 2000 97476 1 6 ''hi'')))) = [True]
   \<and> map m_content (userMessages (snd (un_exec w_universal
          (5, SendCrossChainMessage 2000 97476 1 6 ''hi''))) 5) = [''hi'']
   \<and> receivedMessages (snd (un_exec w_universal
          (5, SendCrossChainMessage 2000 97476 1 6 ''hi''))) 6 = []
   \<and> map m_content (receivedMessages (snd (un_exec w_universal
          (5, SendMessage 2000 97476 6 ''hi''))) 6) = [''hi'']"
  using cross_chain_send [of 97476 97476 "fst w_universal" "snd w_universal" 5 2000 6 "''hi''"]
        cross_chain_send [of 1 97476 "fst w_universal" "snd w_universal" 5 2000 6 "''hi''"
          "fst (un_exec w_universal (5, SendCrossChainMessage 2000 97476 1 6 ''hi''))"
          "snd (un_exec w_universal (5, SendCrossChainMessage 2000 97476 1 6 ''hi''))"
          "fst (un_exec w_universal (5, SendMessage 2000 97476 6 ''hi''))"
          "snd (un_exec w_universal (5, SendMessage 2000 97476 6 ''hi''))"]
  by (simp add: w_universal_cross w_universal_same w_universal_facts)

section \<open>Properties of the monitoring contract\<close>

lemmas mo_eval = w_monitoring_def mo_run_def mo_exec_def mo_constructor_def
  requestMonitoring_def MONITORING_COST_def triggerAlert_def Let_def

lemma w_monitoring_state:
  "userMonitoring (snd w_monitoring) 5 =
     [\<lparr>mr_user = 5, mr_tokenAddress = ''T'', mr_payment = MONITORING_COST, mr_active = True,
       mr_alertThreshold = 500, mr_timestamp = 1000, mr_alertCount = 0\<rparr>,
      \<lparr>mr_user = 5, mr_tokenAddress = ''T'', mr_payment = MONITORING_COST, mr_active = True,
       mr_alertThreshold = 300, mr_timestamp = 1001, mr_alertCount = 0\<rparr>]"
  "tokenMonitors (snd w_monitoring) ''T'' = [5, 5]"
  "mo_owner (snd w_monitoring) = 1"
  by (simp_all add: mo_eval dt_eval)

text \<open>
  Claim C7 against the code. Account 5 holds two active subscriptions to the token
  \<open>T\<close>, so the subscriber index of \<open>T\<close> lists account 5 twice. One
  \<open>triggerAlert\<close> for \<open>T\<close> by the owner runs over the requests of account 5 once
  for each entry of the index: both alert counters go from 0 to 2, and four alert
  events are emitted for the two subscriptions.
\<close>

theorem trigger_alert_counts_twice:
  "map mr_alertCount (userMonitoring (snd w_monitoring) 5) = [0, 0]
   \<and> map mr_active (userMonitoring (snd w_monitoring) 5) = [True, True]
   \<and> map mr_tokenAddress (userMonitoring (snd w_monitoring) 5) = [''T'', ''T'']
   \<and> tokenMonitors (snd w_monitoring) ''T'' = [5, 5]
   \<and> isl (triggerAlert (snd w_monitoring) 1 ''T'' ''PRICE_SPIKE'' 7) = False
   \<and> map mr_alertCount
         (userMonitoring (projr (triggerAlert (snd w_monitoring) 1 ''T'' ''PRICE_SPIKE'' 7)) 5)
       = [2, 2]
   \<and> mo_log (projr (triggerAlert (snd w_monitoring) 1 ''T'' ''PRICE_SPIKE'' 7))
       = mo_log (snd w_monitoring) @
           [AlertTriggered 5 ''T'' ''PRICE_SPIKE'' 7, AlertTriggered 5 ''T'' ''PRICE_SPIKE'' 7,
            AlertTriggered 5 ''T'' ''PRICE_SPIKE'' 7, AlertTriggered 5 ''T'' ''PRICE_SPIKE'' 7]"
  by (simp add: triggerAlert_def w_monitoring_state triggerAlert_monitors.simps
      triggerAlert_requests.simps checked_add_def)

section \<open>Properties of the domain registry\<close>

lemmas dm_eval = w_registry_def w_renewed_def w_shortened_def dm_run_def dm_exec_def
  dm_constructor_def zero_Domain_def tokenizeDomain_def grantDomainRight_def Let_def

text \<open>
  What the loop of \<open>hasRight\<close> computes: the verdict on the first record of the
  history, from index \<open>i\<close> on, that carries the right's name and the user.
\<close>

lemma hasRight_loop_find:
  "i \<le> length rights \<Longrightarrow>
     hasRight_loop rights rightName user now i =
       (case find (\<lambda>x. r_rightName x = rightName \<and> r_holder x = user) (drop i rights) of
          None \<Rightarrow> False
        | Some x \<Rightarrow> r_expiresAt x = 0 \<or> now < r_expiresAt x)"
proof (induction rights rightName user now i rule: hasRight_loop.induct)
  case (1 rights rightName user now i)
  show ?case
  proof (cases "i < length rights")
    case False
    then show ?thesis by (subst hasRight_loop.simps) simp
  next
    case True
    then have d: "drop i rights = rights ! i # drop (i + 1) rights"
      by (simp add: Cons_nth_drop_Suc)
    show ?thesis
    proof (cases "r_rightName (rights ! i) = rightName \<and> r_holder (rights ! i) = user")
      case True
      with \<open>i < length rights\<close> d show ?thesis by (subst hasRight_loop.simps) simp
    next
      case False
      with \<open>i < length rights\<close> have "hasRight_loop rights rightName user now i
          = hasRight_loop rights rightName user now (i + 1)"
        by (subst hasRight_loop.simps) auto
      moreover from \<open>i < length rights\<close> False
      have "hasRight_loop rights rightName user now (i + 1) =
         (case find (\<lambda>x. r_rightName x = rightName \<and> r_holder x = user) (drop (i + 1) rights) of
            None \<Rightarrow> False
          | Some x \<Rightarrow> r_expiresAt x = 0 \<or> now < r_expiresAt x)"
        by (intro "1.IH") simp_all
      ultimately show ?thesis using d False by auto
    qed
  qed
qed

lemma w_renewed_state:
  "d_name (domains (snd w_renewed) ''a.com'') = ''a.com''"
  "d_rights (domains (snd w_renewed) ''a.com'') ''DNS'' = 6"
  "domainRights (snd w_renewed) ''a.com'' =
     [\<lparr>r_rightName = ''DNS'', r_description = ''Right: DNS for domain: a.com'', r_holder = 6,
       r_grantedAt = 100, r_expiresAt = 150\<rparr>,
      \<lparr>r_rightName = ''DNS'', r_description = ''Right: DNS for domain: a.com'', r_holder = 6,
       r_grantedAt = 200, r_expiresAt = 250\<rparr>]"
  by (simp_all add: dm_eval dt_eval)

lemma w_shortened_state:
  "d_name (domains (snd w_shortened) ''a.com'') = ''a.com''"
  "d_rights (domains (snd w_shortened) ''a.com'') ''DNS'' = 6"
  "domainRights (snd w_shortened) ''a.com'' =
     [\<lparr>r_rightName = ''DNS'', r_description = ''Right: DNS for domain: a.com'', r_holder = 6,
       r_grantedAt = 100, r_expiresAt = 0\<rparr>,
      \<lparr>r_rightName = ''DNS'', r_description = ''Right: DNS for domain: a.com'', r_holder = 6,
       r_grantedAt = 200, r_expiresAt = 250\<rparr>]"
  by (simp_all add: dm_eval dt_eval)

text \<open>
  Claim C4 against the code. In \<open>w_renewed\<close> the live rights map of \<open>a.com\<close> maps
  \<open>DNS\<close> to account 6 and the grant in force, the renewal, expires at 250; at time
  220 \<open>hasRight\<close> returns false, because the loop stops at the first record of the
  history for the right and the holder, which expired at 150. In \<open>w_shortened\<close>
  the grant in force expired at 250; at time 300 \<open>hasRight\<close> returns true, from the
  first record, which never expires.
\<close>

theorem has_right_reads_oldest_grant:
  "d_rights (domains (snd w_renewed) ''a.com'') ''DNS'' = 6
   \<and> map r_holder (domainRights (snd w_renewed) ''a.com'') = [6, 6]
   \<and> map r_expiresAt (domainRights (snd w_renewed) ''a.com'') = [150, 250]
   \<and> hasRight (snd w_renewed) 220 ''a.com'' ''DNS'' 6 = Inr False
   \<and> d_rights (domains (snd w_shortened) ''a.com'') ''DNS'' = 6
   \<and> map r_holder (domainRights (snd w_shortened) ''a.com'') = [6, 6]
   \<and> map r_expiresAt (domainRights (snd w_shortened) ''a.com'') = [0, 250]
   \<and> hasRight (snd w_shortened) 300 ''a.com'' ''DNS'' 6 = Inr True"
  by (simp add: hasRight_def hasRight_loop_find w_renewed_state w_shortened_state)

lemma butlast_update_last_mset:
  assumes "i < length xs"
  shows "mset (butlast (xs[i := xs ! (length xs - 1)])) = mset xs - {#xs ! i#}"
proof (cases xs rule: rev_cases)
  case Nil
  with assms show ?thesis by simp
next
  case (snoc ys l)
  show ?thesis
  proof (cases "i < length ys")
    case True
    then have "ys ! i \<in># mset ys" by simp
    with True snoc show ?thesis
      by (simp add: list_update_append nth_append mset_update)
  next
    case False
    with assms snoc have "i = length ys" by simp
    with snoc show ?thesis by simp
  qed
qed

lemma transferDomain_remove_mset:
  "i \<le> length xs \<Longrightarrow> n \<notin> set (take i xs) \<Longrightarrow>
     mset (transferDomain_remove xs n i) = mset xs - {#n#}"
proof (induction xs n i rule: transferDomain_remove.induct)
  case (1 xs n i)
  show ?case
  proof (cases "i < length xs")
    case False
    with "1.prems" have "n \<notin> set xs" by simp
    then have "n \<notin># mset xs" by simp
    with False show ?thesis by (subst transferDomain_remove.simps) simp
  next
    case True
    show ?thesis
    proof (cases "xs ! i = n")
      case True
      with \<open>i < length xs\<close> butlast_update_last_mset[of i xs] show ?thesis
        by (subst transferDomain_remove.simps) simp
    next
      case False
      with \<open>i < length xs\<close> "1.prems" have "n \<notin> set (take (i + 1) xs)"
        by (simp add: take_Suc_conv_app_nth)
      with \<open>i < length xs\<close> False have "mset (transferDomain_remove xs n (i + 1)) = mset xs - {#n#}"
        by (intro "1.IH") simp_all
      with \<open>i < length xs\<close> False show ?thesis
        by (subst transferDomain_remove.simps) simp
    qed
  qed
qed

lemma dm_inv_constructor: "dm_inv (dm_constructor deployer self)"
  by (simp add: dm_inv_def dm_constructor_def zero_Domain_def)

lemma tokenizeDomain_Inr:
  assumes "tokenizeDomain d s sender now n = Inr (d', s')"
  shows "n \<noteq> []" and "\<not> d_isTokenized (domains s n)"
    and "domains s' = (domains s)(n := (domains s n)
           \<lparr>d_name := n, d_owner := sender, d_isTokenized := True,
            d_tokenizedAt := now, d_isActive := True\<rparr>)"
    and "userDomains s' = (userDomains s)(sender := userDomains s sender @ [n])"
  using assms by (auto simp: tokenizeDomain_def split: if_splits sum.splits)

lemma tokenizeDomain_inv:
  assumes "dm_inv s" and "tokenizeDomain d s sender now n = Inr (d', s')"
  shows "dm_inv s'"
proof -
  note t = tokenizeDomain_Inr[OF assms(2)]
  from assms(1) t(2) have z: "count (mset (userDomains s u)) n = 0" for u
    by (simp add: dm_inv_def)
  show ?thesis
    unfolding dm_inv_def
  proof (intro allI conjI impI)
    fix m assume "d_name (domains s' m) \<noteq> []"
    with assms(1) t show "d_isTokenized (domains s' m)"
      by (cases "m = n") (simp_all add: dm_inv_def)
  next
    fix m u
    from assms(1) have i: "count (mset (userDomains s u)) m =
        (if d_isTokenized (domains s m) \<and> d_owner (domains s m) = u then 1 else 0)"
      by (simp add: dm_inv_def)
    show "count (mset (userDomains s' u)) m =
        (if d_isTokenized (domains s' m) \<and> d_owner (domains s' m) = u then 1 else 0)"
    proof (cases "m = n")
      case True
      with t z[of u] show ?thesis by simp
    next
      case False
      with t have c: "count (mset (userDomains s' u)) m = count (mset (userDomains s u)) m"
        by simp
      from False t have e: "domains s' m = domains s m" by simp
      show ?thesis unfolding c e by (rule i)
    qed
  qed
qed

lemma transferDomain_Inr:
  assumes "transferDomain d s sender n to = Inr (d', s')"
  shows "d_name (domains s n) \<noteq> []" and "d_owner (domains s n) = sender"
    and "domains s' = (domains s)(n := (domains s n)\<lparr>d_owner := to\<rparr>)"
    and "userDomains s' =
           ((userDomains s)(to := userDomains s to @ [n]))
             (sender := transferDomain_remove
                (((userDomains s)(to := userDomains s to @ [n])) sender) n 0)"
  using assms by (auto simp: transferDomain_def Let_def split: if_splits sum.splits)

lemma transferDomain_inv:
  assumes "dm_inv s" and "transferDomain d s sender n to = Inr (d', s')"
  shows "dm_inv s'"
proof -
  note t = transferDomain_Inr[OF assms(2)]
  from assms(1) t(1) have tok: "d_isTokenized (domains s n)" by (simp add: dm_inv_def)
  have rm: "mset (transferDomain_remove xs n 0) = mset xs - {#n#}" for xs
    by (rule transferDomain_remove_mset) simp_all
  show ?thesis
    unfolding dm_inv_def
  proof (intro allI conjI impI)
    fix m assume "d_name (domains s' m) \<noteq> []"
    with assms(1) t show "d_isTokenized (domains s' m)"
      by (cases "m = n") (simp_all add: dm_inv_def)
  next
    fix m u
    from assms(1) have i: "count (mset (userDomains s v)) k =
        (if d_isTokenized (domains s k) \<and> d_owner (domains s k) = v then 1 else 0)" for v k
      by (simp add: dm_inv_def)
    show "count (mset (userDomains s' u)) m =
        (if d_isTokenized (domains s' m) \<and> d_owner (domains s' m) = u then 1 else 0)"
    proof (cases "to = sender")
      case True
      with t rm have "mset (userDomains s' u) = mset (userDomains s u)"
        by (cases "u = sender") simp_all
      with True t i[of u m] show ?thesis by (cases "m = n") simp_all
    next
      case False
      show ?thesis
      proof (cases "u = sender")
        case True
        with False t rm have "mset (userDomains s' u) = mset (userDomains s u) - {#n#}" by simp
        with True False t tok i[of u m] show ?thesis by (cases "m = n") simp_all
      next
        case nS: False
        show ?thesis
        proof (cases "u = to")
          case True
          with False t have "mset (userDomains s' u) = add_mset n (mset (userDomains s u))" by simp
          with True False t tok i[of u m] show ?thesis by (cases "m = n") auto
        next
          case False
          with nS t have "userDomains s' u = userDomains s u" by simp
          with nS False t tok i[of u m] show ?thesis by (cases "m = n") auto
        qed
      qed
    qed
  qed
qed

lemma dm_inv_cong:
  assumes "dm_inv s" and "userDomains s' = userDomains s"
    and "\<And>n. d_name (domains s' n) = d_name (domains s n)"
    and "\<And>n. d_isTokenized (domains s' n) = d_isTokenized (domains s n)"
    and "\<And>n. d_owner (domains s' n) = d_owner (domains s n)"
  shows "dm_inv s'"
  using assms by (simp add: dm_inv_def)

lemma grantDomainRight_inv:
  assumes "dm_inv s" and "grantDomainRight d s sender now n r h dur = Inr (d', s')"
  shows "dm_inv s'"
  using assms(2)
  by (intro dm_inv_cong[OF assms(1)])
     (auto simp: grantDomainRight_def Let_def split: if_splits sum.splits)

lemma revokeDomainRight_inv:
  assumes "dm_inv s" and "revokeDomainRight s sender n r = Inr s'"
  shows "dm_inv s'"
  using assms(2)
  by (intro dm_inv_cong[OF assms(1)])
     (auto simp: revokeDomainRight_def Let_def split: if_splits)

lemma syncDomainState_inv:
  assumes "dm_inv s" and "syncDomainState s sender n a = Inr s'"
  shows "dm_inv s'"
  using assms(2)
  by (intro dm_inv_cong[OF assms(1)])
     (auto simp: syncDomainState_def split: if_splits)

lemma dm_transferOwnership_inv:
  assumes "dm_inv s" and "dm_transferOwnership s sender n = Inr s'"
  shows "dm_inv s'"
  using assms(2)
  by (intro dm_inv_cong[OF assms(1)])
     (auto simp: dm_transferOwnership_def split: if_splits)

lemma dm_renounceOwnership_inv:
  assumes "dm_inv s" and "dm_renounceOwnership s sender = Inr s'"
  shows "dm_inv s'"
  using assms(2)
  by (intro dm_inv_cong[OF assms(1)])
     (auto simp: dm_renounceOwnership_def split: if_splits)

lemma dm_dispatch_inv:
  assumes "dm_inv s" and "dm_dispatch (d, s) sender c = Inr (d', s')"
  shows "dm_inv s'"
proof (cases c)
  case (DM_Ledger x)
  with assms show ?thesis by (auto split: sum.splits)
next
  case (TokenizeDomain now n)
  with assms tokenizeDomain_inv show ?thesis by auto
next
  case (GrantDomainRight now n r h dur)
  with assms grantDomainRight_inv show ?thesis by auto
next
  case (RevokeDomainRight n r)
  with assms revokeDomainRight_inv show ?thesis by (auto split: sum.splits)
next
  case (TransferDomain n to)
  with assms transferDomain_inv show ?thesis by auto
next
  case (SyncDomainState n a)
  with assms syncDomainState_inv show ?thesis by (auto split: sum.splits)
next
  case (DM_TransferOwnership n)
  with assms dm_transferOwnership_inv show ?thesis by (auto split: sum.splits)
next
  case DM_RenounceOwnership
  with assms dm_renounceOwnership_inv show ?thesis by (auto split: sum.splits)
qed

lemma dm_exec_inv: "dm_inv (snd w) \<Longrightarrow> dm_inv (snd (dm_exec w tx))"
proof (cases "dm_dispatch w (fst tx) (snd tx)")
  case (Inl e)
  assume "dm_inv (snd w)"
  with Inl show ?thesis by (simp add: dm_exec_def)
next
  case (Inr w')
  assume a: "dm_inv (snd w)"
  from Inr have "dm_dispatch (fst w, snd w) (fst tx) (snd tx) = Inr (fst w', snd w')" by simp
  from dm_dispatch_inv[OF a this] Inr show ?thesis by (simp add: dm_exec_def)
qed

lemma dm_run_inv: "dm_inv (snd w) \<Longrightarrow> dm_inv (snd (dm_run w txs))"
proof (induction txs arbitrary: w)
  case Nil
  then show ?case by (simp add: dm_run_def)
next
  case (Cons tx txs)
  from Cons.IH[OF dm_exec_inv[OF Cons.prems]] show ?case by (simp add: dm_run_def)
qed

text \<open>
  Claim C8. In every state the registry reaches from its deployment, after a
  successful \<open>transferDomain(name, B)\<close> called by \<open>A\<close> (the owner of the domain, as
  the call succeeded), \<open>B\<close> is the owner and the name occurs exactly once in the
  list of \<open>B\<close>; when \<open>B\<close> is another account than \<open>A\<close>, the name was appended to
  the list of \<open>B\<close> and does not occur in the list of \<open>A\<close>, whatever the order of
  that list was, and \<open>A\<close> keeps every other name it had.
\<close>

theorem transfer_moves_domain:
  "w = dm_run (d0, dm_constructor deployer self) txs
   \<and> transferDomain (fst w) (snd w) A name B = Inr (d', s') \<longrightarrow>
     count_list (userDomains s' B) name = 1
     \<and> d_owner (domains s' name) = B
     \<and> (B \<noteq> A \<longrightarrow>
          name \<notin> set (userDomains s' A)
          \<and> userDomains s' B = userDomains (snd w) B @ [name]
          \<and> mset (userDomains s' A) = mset (userDomains (snd w) A) - {#name#})"
proof (intro impI)
  assume a: "w = dm_run (d0, dm_constructor deployer self) txs
   \<and> transferDomain (fst w) (snd w) A name B = Inr (d', s')"
  then have w: "w = dm_run (d0, dm_constructor deployer self) txs"
    and tr: "transferDomain (fst w) (snd w) A name B = Inr (d', s')"
    by blast+
  have inv1: "dm_inv (snd w)"
    unfolding w using dm_run_inv[of "(d0, dm_constructor deployer self)" txs]
    by (simp add: dm_inv_constructor)
  from transferDomain_inv[OF inv1 tr] have inv2: "dm_inv s'" .
  note t = transferDomain_Inr[OF tr]
  from inv1 t(1) have tok: "d_isTokenized (domains (snd w) name)" by (simp add: dm_inv_def)
  from t(3) have own: "d_owner (domains s' name) = B"
    and tok2: "d_isTokenized (domains s' name) = d_isTokenized (domains (snd w) name)"
    by simp_all
  from inv2 have c: "count (mset (userDomains s' u)) name =
      (if d_isTokenized (domains s' name) \<and> d_owner (domains s' name) = u then 1 else 0)" for u
    by (simp add: dm_inv_def)
  from c[of B] own tok tok2 have once: "count_list (userDomains s' B) name = 1"
    by (simp add: count_mset)
  have other: "name \<notin> set (userDomains s' A)
          \<and> userDomains s' B = userDomains (snd w) B @ [name]
          \<and> mset (userDomains s' A) = mset (userDomains (snd w) A) - {#name#}" if ne: "B \<noteq> A"
  proof -
    from c[of A] own ne have "count (mset (userDomains s' A)) name = 0" by simp
    then have "name \<notin> set (userDomains s' A)" by (simp add: count_eq_zero_iff)
    moreover from t(4) ne have "userDomains s' B = userDomains (snd w) B @ [name]" by simp
    moreover have "mset (transferDomain_remove (userDomains (snd w) A) name 0)
        = mset (userDomains (snd w) A) - {#name#}"
      by (rule transferDomain_remove_mset) simp_all
    with t(4) ne have "mset (userDomains s' A) = mset (userDomains (snd w) A) - {#name#}" by simp
    ultimately show ?thesis by simp
  qed
  from once own other
  show "count_list (userDomains s' B) name = 1
     \<and> d_owner (domains s' name) = B
     \<and> (B \<noteq> A \<longrightarrow>
          name \<notin> set (userDomains s' A)
          \<and> userDomains s' B = userDomains (snd w) B @ [name]
          \<and> mset (userDomains s' A) = mset (userDomains (snd w) A) - {#name#})"
    by blast
qed

lemma w_registry_lists:
  "userDomains (snd w_registry) 5 = [''a.com'', ''b.com'', ''c.com'']"
  "userDomains (snd w_registry) 6 = []"
  by (simp_all add: dm_eval dt_eval)

lemma w_registry_transfer:
  "transferDomain (fst w_registry) (snd w_registry) 5 ''a.com'' 6
     = Inr (fst (dm_exec w_registry (5, TransferDomain ''a.com'' 6)),
            snd (dm_exec w_registry (5, TransferDomain ''a.com'' 6)))"
  "userDomains (snd (dm_exec w_registry (5, TransferDomain ''a.com'' 6))) 5 = [''c.com'', ''b.com'']"
  "userDomains (snd (dm_exec w_registry (5, TransferDomain ''a.com'' 6))) 6 = [''a.com'']"
  by (simp_all add: dm_eval dt_eval transferDomain_def transferDomain_remove.simps)

theorem transfer_moves_domain_witness:
  "transferDomain (fst w_registry) (snd w_registry) 5 ''a.com'' 6
     = Inr (fst (dm_exec w_registry (5, TransferDomain ''a.com'' 6)),
            snd (dm_exec w_registry (5, TransferDomain ''a.com'' 6)))
   \<and> (6 :: address) \<noteq> 5
   \<and> userDomains (snd w_registry) 5 = [''a.com'', ''b.com'', ''c.com'']
   \<and> userDomains (snd (dm_exec w_registry (5, TransferDomain ''a.com'' 6))) 5 = [''c.com'', ''b.com'']
   \<and> userDomains (snd (dm_exec w_registry (5, TransferDomain ''a.com'' 6))) 6 = [''a.com'']
   \<and> count_list (userDomains (snd (dm_exec w_registry (5, TransferDomain ''a.com'' 6))) 6) ''a.com'' = 1
   \<and> ''a.com'' \<notin> set (userDomains (snd (dm_exec w_registry (5, TransferDomain ''a.com'' 6))) 5)
   \<and> d_owner (domains (snd (dm_exec w_registry (5, TransferDomain ''a.com'' 6))) ''a.com'') = 6"
  using transfer_moves_domain [of w_registry
          "dt_run (dt_constructor 1) [(1, AuthorizeContract 10 True), (5, Receive (10 * FEATURE_COST))]"
          1 10
          "[(5, TokenizeDomain 50 ''a.com''), (5, TokenizeDomain 60 ''b.com''),
            (5, TokenizeDomain 70 ''c.com'')]"
          5 "''a.com''" 6
          "fst (dm_exec w_registry (5, TransferDomain ''a.com'' 6))"
          "snd (dm_exec w_registry (5, TransferDomain ''a.com'' 6))"]
        w_registry_def
  by (simp add: w_registry_transfer w_registry_lists)

end
